theory Spec2Isabelle
  imports Complex_Main
begin

section \<open>The flows manager store (\<open>flowsManagerStore.ts\<close>)\<close>

text \<open>
  The store keeps the list of flow documents, the current one, a debounced autosave and a
  per-document undo/redo history. The model passes the whole world explicitly: the zustand
  state of the store, the three module-level variables \<open>saveTimeoutId\<close>, \<open>past\<close> and
  \<open>future\<close>, the graph held by the flow store, the pending timers of the event loop and a
  log of every call made to an external collaborator.

  Modelled are \<open>setCurrentFlowId\<close>, \<open>setFlows\<close>, \<open>autoSaveCurrentFlow\<close>, \<open>saveFlow\<close>,
  \<open>addFlow\<close>, \<open>removeFlow\<close>, \<open>deleteComponent\<close>, \<open>uploadFlow\<close>, \<open>takeSnapshot\<close>,
  \<open>undo\<close> and \<open>redo\<close>. The operations \<open>setIsLoading\<close>, \<open>refreshFlows\<close>,
  \<open>uploadFlows\<close> and \<open>saveComponent\<close> play no part in the properties below and are left
  out.
\<close>

subsection \<open>Data\<close>

text \<open>\<open>XYPosition\<close> and \<open>Viewport\<close> of reactflow; the numbers are only passed through.\<close>

record XYPosition =
  x :: real
  y :: real

record Viewport = XYPosition +
  zoom :: real

text \<open>
  A history entry is the object \<open>{nodes, edges}\<close>; the graph of a document
  (\<open>ReactFlowJsonObject\<close>) has a viewport as well. Nodes and edges are type parameters.
\<close>

record ('n, 'e) graph =
  nodes :: "'n list"
  edges :: "'e list"

record ('n, 'e) ReactFlowJsonObject = "('n, 'e) graph" +
  viewport :: Viewport

text \<open>
  The value of the field \<open>is_component\<close> of a document. The type \<open>FlowType\<close> declares an
  optional boolean, but a document read from a file is whatever \<open>JSON.parse\<close> returns:
  the field may be absent (\<open>Undefined\<close>), a boolean, or anything else (\<open>Other\<close>: null, a
  number, a string, an object), of which the code only asks whether it is truthy.
\<close>

datatype js_value = Undefined | Boolean bool | Other bool

fun js_truthy :: "js_value \<Rightarrow> bool" where
  "js_truthy Undefined = False"
| "js_truthy (Boolean b) = b"
| "js_truthy (Other t) = t"

text \<open>
  \<open>FlowType\<close>, with the fields this file reads. \<open>data\<close> may be null (the source writes
  \<open>flow!.data!\<close>). The field \<open>id\<close> is named \<open>flow_id\<close> here.
\<close>

record ('n, 'e) FlowType =
  name :: string
  flow_id :: string
  data :: "('n, 'e) ReactFlowJsonObject option"
  is_component :: js_value

text \<open>\<open>UseUndoRedoOptions\<close> and the module constant \<open>defaultOptions\<close>.\<close>

record UseUndoRedoOptions =
  maxHistorySize :: int
  enableShortcuts :: bool

definition defaultOptions :: UseUndoRedoOptions where
  "defaultOptions = \<lparr>maxHistorySize = 100, enableShortcuts = True\<rparr>"

text \<open>
  Calls to the external collaborators, in the order they are made: the persistence
  functions of \<open>controllers/API\<close>, the flow store, the alert store and the types store.
\<close>

datatype ('n, 'e, 'c) call =
    SaveFlowToDatabase "('n, 'e) FlowType"
  | UpdateFlowInDatabase "('n, 'e) FlowType"
  | DeleteFlowFromDatabase string
  | Paste "('n, 'e) graph" XYPosition
  | SetNodes "'n list"
  | SetEdges "'e list"
  | SetSuccessData string
  | SetErrorData string "string list"
  | SetSavedComponents 'c

text \<open>The callbacks this file hands to \<open>setTimeout\<close>, as data.\<close>

datatype ('n, 'e) callback =
    AutoSave "'n list" "'e list" Viewport
  | InsertFlow "('n, 'e) FlowType"

record ('n, 'e) timer =
  timer_id :: nat
  due :: nat
  timer_callback :: "('n, 'e) callback"

record ('n, 'e, 'c) world =
  currentFlowId :: string
  flows :: "('n, 'e) FlowType list"
  currentFlow :: "('n, 'e) FlowType option"
  isLoading :: bool
  saveTimeoutId :: "nat option"
  past :: "string \<rightharpoonup> ('n, 'e) graph list"
  future :: "string \<rightharpoonup> ('n, 'e) graph list"
  flowStore :: "('n, 'e) graph"
  now :: nat
  timers :: "('n, 'e) timer list"
  nextTimerId :: nat
  calls :: "('n, 'e, 'c) call list"

subsection \<open>JavaScript arrays\<close>

text \<open>
  \<open>Array.prototype.slice(start, end)\<close>: a negative index counts from the end of the
  array, and both indices are clamped to the array.
\<close>

definition js_slice :: "'a list \<Rightarrow> int \<Rightarrow> int \<Rightarrow> 'a list" where
  "js_slice xs start end =
     (let len = int (length xs);
          k = (if start < 0 then max (len + start) 0 else min start len);
          final = (if end < 0 then max (len + end) 0 else min end len)
      in take (nat (max (final - k) 0)) (drop (nat k) xs))"

text \<open>
  \<open>past[id]\<close> read through \<open>?.\<close> and \<open>??\<close>: a stack that was never created reads as
  the empty one. The identifiers are those of documents, assigned by the backend, or the
  empty string before a document is chosen. An identifier that names a member of
  \<open>Object.prototype\<close>, such as \<open>constructor\<close>, is outside the model: for it
  \<open>past[id]\<close> is not an array, \<open>takeSnapshot\<close> throws before it writes anything, and
  \<open>undo\<close> and \<open>redo\<close> do nothing.
\<close>

definition stack :: "(string \<rightharpoonup> 'a list) \<Rightarrow> string \<Rightarrow> 'a list" where
  "stack m k = (case m k of None \<Rightarrow> [] | Some xs \<Rightarrow> xs)"

subsection \<open>The graph session\<close>

text \<open>
  Modelled from the spec: the flow store (\<open>stores/flowStore\<close>) is not part of this file.
  Section 6 of the specification gives its contract: getters and setters for the nodes and
  the edges. \<open>setNodes\<close> and \<open>setEdges\<close> write one field each; the write is logged.
\<close>

definition setNodes :: "'n list \<Rightarrow> ('n, 'e, 'c) world \<Rightarrow> ('n, 'e, 'c) world" where
  "setNodes ns w =
     w\<lparr>flowStore := (flowStore w)\<lparr>nodes := ns\<rparr>, calls := calls w @ [SetNodes ns]\<rparr>"

definition setEdges :: "'e list \<Rightarrow> ('n, 'e, 'c) world \<Rightarrow> ('n, 'e, 'c) world" where
  "setEdges es w =
     w\<lparr>flowStore := (flowStore w)\<lparr>edges := es\<rparr>, calls := calls w @ [SetEdges es]\<rparr>"

subsection \<open>History: \<open>takeSnapshot\<close>, \<open>undo\<close>, \<open>redo\<close>\<close>

text \<open>
  \<open>cloneDeep\<close> copies a value; HOL values are immutable, so the copy is the value.
  \<open>JSON.stringify\<close> is a parameter: the two entries are compared by their serialisations,
  whatever the serialisation is.
\<close>

definition cloneDeep :: "'a \<Rightarrow> 'a" where
  "cloneDeep v = v"

definition takeSnapshot ::
  "(('n, 'e) graph \<Rightarrow> string) \<Rightarrow> ('n, 'e, 'c) world \<Rightarrow> ('n, 'e, 'c) world" where
  "takeSnapshot stringify w =
     (let cid = currentFlowId w;
          newState = \<lparr>nodes = cloneDeep (nodes (flowStore w)),
                      edges = cloneDeep (edges (flowStore w))\<rparr>;
          pastLength = length (stack (past w) cid)
      in if pastLength > 0 \<and>
            stringify (stack (past w) cid ! (pastLength - 1)) = stringify newState
         then w
         else
           let w1 =
             (if pastLength > 0
              then w\<lparr>past := (past w)(cid \<mapsto>
                     js_slice (stack (past w) cid)
                       (int pastLength - maxHistorySize defaultOptions + 1) (int pastLength)
                     @ [newState])\<rparr>
              else w\<lparr>past := (past w)(cid \<mapsto> [newState])\<rparr>)
           in w1\<lparr>future := (future w1)(cid \<mapsto> [])\<rparr>)"

definition undo :: "('n, 'e, 'c) world \<Rightarrow> ('n, 'e, 'c) world" where
  "undo w =
     (let newState = flowStore w;
          cid = currentFlowId w;
          pastLength = length (stack (past w) cid);
          pastState = (if pastLength = 0 then None
                       else Some (stack (past w) cid ! (pastLength - 1)))
      in case pastState of
           None \<Rightarrow> w
         | Some ps \<Rightarrow>
             let w1 = w\<lparr>past := (past w)(cid \<mapsto>
                        js_slice (stack (past w) cid) 0 (int pastLength - 1))\<rparr>;
                 w2 = (if future w1 cid = None
                       then w1\<lparr>future := (future w1)(cid \<mapsto> [])\<rparr> else w1);
                 w3 = w2\<lparr>future := (future w2)(cid \<mapsto>
                        stack (future w2) cid
                        @ [\<lparr>nodes = nodes newState, edges = edges newState\<rparr>])\<rparr>
             in setEdges (edges ps) (setNodes (nodes ps) w3))"

definition redo :: "('n, 'e, 'c) world \<Rightarrow> ('n, 'e, 'c) world" where
  "redo w =
     (let newState = flowStore w;
          cid = currentFlowId w;
          futureLength = length (stack (future w) cid);
          futureState = (if futureLength = 0 then None
                         else Some (stack (future w) cid ! (futureLength - 1)))
      in case futureState of
           None \<Rightarrow> w
         | Some fs \<Rightarrow>
             let w1 = w\<lparr>future := (future w)(cid \<mapsto>
                        js_slice (stack (future w) cid) 0 (int futureLength - 1))\<rparr>;
                 w2 = (if past w1 cid = None
                       then w1\<lparr>past := (past w1)(cid \<mapsto> [])\<rparr> else w1);
                 w3 = w2\<lparr>past := (past w2)(cid \<mapsto>
                        stack (past w2) cid
                        @ [\<lparr>nodes = nodes newState, edges = edges newState\<rparr>])\<rparr>
             in setEdges (edges fs) (setNodes (nodes fs) w3))"

text \<open>
  What happens to the history of a document between two calls: the user edits the graph
  (through the setters of the graph session) or asks for a snapshot, an undo or a redo.
\<close>

datatype ('n, 'e) history_op = TakeSnapshot | Undo | Redo | Edit "('n, 'e) graph"

fun history_step ::
  "(('n, 'e) graph \<Rightarrow> string) \<Rightarrow> ('n, 'e) history_op \<Rightarrow> ('n, 'e, 'c) world \<Rightarrow> ('n, 'e, 'c) world" where
  "history_step stringify TakeSnapshot w = takeSnapshot stringify w"
| "history_step stringify Undo w = undo w"
| "history_step stringify Redo w = redo w"
| "history_step stringify (Edit g) w = setEdges (edges g) (setNodes (nodes g) w)"

fun history_run ::
  "(('n, 'e) graph \<Rightarrow> string) \<Rightarrow> ('n, 'e) history_op list \<Rightarrow> ('n, 'e, 'c) world \<Rightarrow> ('n, 'e, 'c) world" where
  "history_run stringify [] w = w"
| "history_run stringify (a # as) w = history_run stringify as (history_step stringify a w)"

text \<open>
  The condition of the early return of \<open>takeSnapshot\<close>: the stack of the current
  document has a top entry and it serialises to the same text as the new snapshot.
\<close>

definition dedup :: "(('n, 'e) graph \<Rightarrow> string) \<Rightarrow> ('n, 'e, 'c) world \<Rightarrow> bool" where
  "dedup stringify w =
     (let cid = currentFlowId w;
          newState = \<lparr>nodes = cloneDeep (nodes (flowStore w)),
                      edges = cloneDeep (edges (flowStore w))\<rparr>;
          pastLength = length (stack (past w) cid)
      in pastLength > 0 \<and>
         stringify (stack (past w) cid ! (pastLength - 1)) = stringify newState)"

subsection \<open>Promises, files and the external functions\<close>

text \<open>
  What a promise returned by an operation settles to. \<open>Pending\<close> stands for a promise that
  never settles: an executor that throws in an \<open>async\<close> callback, or a branch that calls
  neither \<open>resolve\<close> nor \<open>reject\<close>.
\<close>

datatype reason = TypeError | GatewayError string | Message string

datatype 'a promise = Resolved 'a | Rejected reason | Pending

text \<open>
  An optional boolean argument (\<open>override\<close>, \<open>silent\<close>) used as a condition:
  \<open>undefined\<close> and \<open>false\<close> are falsy.
\<close>

definition truthy :: "bool option \<Rightarrow> bool" where
  "truthy b = (b = Some True)"

text \<open>
  A \<open>File\<close> with its media type and its text, and what \<open>JSON.parse\<close> makes of the text:
  one document, or a bundle with a \<open>flows\<close> array (the field is named \<open>file_flows\<close>
  here).
\<close>

record File =
  file_type :: string
  file_text :: string

record ('n, 'e) fileData = "('n, 'e) FlowType" +
  file_flows :: "('n, 'e) FlowType list option"

text \<open>
  The functions this file imports from modules that are not part of it, taken as
  parameters: \<open>JSON.parse\<close> (no value when it throws, or when what it returns is not an
  object, so that reading a field of it throws), the helpers of
  \<open>utils/reactflowUtils\<close>, the answers of the persistence functions of
  \<open>controllers/API\<close> (\<open>Inl\<close> a failure with its message), and what the paste of the flow
  store does to its graph. An answer depends on the request only. An operation that is
  awaited alone runs to its end: what other operations do between its request and the
  answer is not modelled. Where the source sends several requests before it waits
  (\<open>addFlow\<close> in a forced replace, and in the \<open>forEach\<close> of \<open>uploadFlow\<close>), the
  requests are logged first and the answers are applied afterwards, in the order of the
  requests.
\<close>

record ('n, 'e, 'c) env =
  JSON_parse :: "string \<Rightarrow> ('n, 'e) fileData option"
  processDataFromFlow :: "('n, 'e) FlowType \<Rightarrow> ('n, 'e) ReactFlowJsonObject option"
  createNewFlow ::
    "('n, 'e) ReactFlowJsonObject option \<Rightarrow> ('n, 'e) FlowType option \<Rightarrow> ('n, 'e) FlowType"
  addVersionToDuplicates :: "('n, 'e) FlowType \<Rightarrow> ('n, 'e) FlowType list \<Rightarrow> string"
  processFlows :: "('n, 'e) FlowType list \<Rightarrow> 'c \<times> ('n, 'e) FlowType list"
  saveFlowToDatabase :: "('n, 'e) FlowType \<Rightarrow> string + string"
  updateFlowInDatabase :: "('n, 'e) FlowType \<Rightarrow> string + ('n, 'e) FlowType option"
  deleteFlowFromDatabase :: "string \<Rightarrow> bool"
  paste_graph :: "('n, 'e) graph \<Rightarrow> XYPosition \<Rightarrow> ('n, 'e) graph \<Rightarrow> ('n, 'e) graph"

definition log :: "('n, 'e, 'c) call \<Rightarrow> ('n, 'e, 'c) world \<Rightarrow> ('n, 'e, 'c) world" where
  "log c w = w\<lparr>calls := calls w @ [c]\<rparr>"

text \<open>
  Modelled from the spec: \<open>paste\<close> of the flow store, which is not part of this file.
  Section 6 of the specification lists \<open>paste(payload, position)\<close> in the contract of the
  graph session. The call is logged and the graph changes as the parameter \<open>paste_graph\<close>
  says.
\<close>

definition paste ::
  "('n, 'e, 'c) env \<Rightarrow> ('n, 'e) graph \<Rightarrow> XYPosition \<Rightarrow> ('n, 'e, 'c) world \<Rightarrow> ('n, 'e, 'c) world" where
  "paste env g p w =
     w\<lparr>flowStore := paste_graph env g p (flowStore w), calls := calls w @ [Paste g p]\<rparr>"

subsection \<open>Timers\<close>

text \<open>
  \<open>setTimeout\<close> and \<open>clearTimeout\<close> of the event loop, over a logical clock in
  milliseconds. A timer fires once the clock has reached its due time.
\<close>

definition setTimeout ::
  "('n, 'e) callback \<Rightarrow> nat \<Rightarrow> ('n, 'e, 'c) world \<Rightarrow> nat \<times> ('n, 'e, 'c) world" where
  "setTimeout cb delay w =
     (nextTimerId w,
      w\<lparr>timers := timers w @
           [\<lparr>timer_id = nextTimerId w, due = now w + delay, timer_callback = cb\<rparr>],
        nextTimerId := Suc (nextTimerId w)\<rparr>)"

definition clearTimeout :: "nat \<Rightarrow> ('n, 'e, 'c) world \<Rightarrow> ('n, 'e, 'c) world" where
  "clearTimeout i w = w\<lparr>timers := filter (\<lambda>t. timer_id t \<noteq> i) (timers w)\<rparr>"

subsection \<open>The registry\<close>

definition setCurrentFlowId :: "string \<Rightarrow> ('n, 'e, 'c) world \<Rightarrow> ('n, 'e, 'c) world" where
  "setCurrentFlowId i w =
     w\<lparr>currentFlowId := i, currentFlow := find (\<lambda>flow. flow_id flow = i) (flows w)\<rparr>"

definition setFlows ::
  "('n, 'e) FlowType list \<Rightarrow> ('n, 'e, 'c) world \<Rightarrow> ('n, 'e, 'c) world" where
  "setFlows fl w =
     w\<lparr>flows := fl, currentFlow := find (\<lambda>flow. flow_id flow = currentFlowId w) fl\<rparr>"

definition saveFlow ::
  "('n, 'e, 'c) env \<Rightarrow> ('n, 'e) FlowType \<Rightarrow> bool option \<Rightarrow> ('n, 'e, 'c) world
     \<Rightarrow> unit promise \<times> ('n, 'e, 'c) world" where
  "saveFlow env flow silent w =
     (let w1 = log (UpdateFlowInDatabase flow) w
      in case updateFlowInDatabase env flow of
           Inl err \<Rightarrow>
             (Rejected (GatewayError err),
              log (SetErrorData ''Error while saving changes'' [err]) w1)
         | Inr None \<Rightarrow> (Pending, w1)
         | Inr (Some updatedFlow) \<Rightarrow>
             let w2 = (if \<not> truthy silent
                       then log (SetSuccessData ''Changes saved successfully'') w1 else w1);
                 w3 = setFlows
                        (map (\<lambda>flow. if flow_id flow = flow_id updatedFlow then updatedFlow
                                      else flow) (flows w2)) w2
             in (Resolved (), w3))"

text \<open>
  \<open>removeFlow\<close> resolves only when the document is found and the gateway has deleted it.
  It is split at its one suspension point: the request goes out when the document is in
  the collection, and the collection is filtered when the answer arrives.
\<close>

definition removeFlow_request ::
  "string \<Rightarrow> ('n, 'e, 'c) world \<Rightarrow> bool \<times> ('n, 'e, 'c) world" where
  "removeFlow_request i w =
     (if find (\<lambda>flow. flow_id flow = i) (flows w) \<noteq> None
      then (True, log (DeleteFlowFromDatabase i) w)
      else (False, w))"

definition removeFlow_answer ::
  "('n, 'e, 'c) env \<Rightarrow> string \<Rightarrow> ('n, 'e, 'c) world \<Rightarrow> unit promise \<times> ('n, 'e, 'c) world" where
  "removeFlow_answer env i w =
     (if deleteFlowFromDatabase env i
      then
        let (data, fl) = processFlows env (filter (\<lambda>flow. flow_id flow \<noteq> i) (flows w));
            w2 = setFlows fl w;
            w3 = w2\<lparr>isLoading := False\<rparr>;
            w4 = log (SetSavedComponents data) w3
        in (Resolved (), w4)
      else (Pending, w))"

definition removeFlow ::
  "('n, 'e, 'c) env \<Rightarrow> string \<Rightarrow> ('n, 'e, 'c) world \<Rightarrow> unit promise \<times> ('n, 'e, 'c) world" where
  "removeFlow env i w =
     (case removeFlow_request i w of
        (True, w1) \<Rightarrow> removeFlow_answer env i w1
      | (False, w1) \<Rightarrow> (Pending, w1))"

text \<open>
  \<open>deleteComponent\<close>, split in the same way: the request part returns the identifier of
  the component whose deletion was requested, if any.
\<close>

definition deleteComponent_request ::
  "string \<Rightarrow> ('n, 'e, 'c) world \<Rightarrow> string option \<times> ('n, 'e, 'c) world" where
  "deleteComponent_request key w =
     (case find (\<lambda>componentFlow. js_truthy (is_component componentFlow) \<and>
                                  name componentFlow = key) (flows w) of
        Some componentFlow \<Rightarrow>
          (case removeFlow_request (flow_id componentFlow) w of
             (True, w1) \<Rightarrow> (Some (flow_id componentFlow), w1)
           | (False, w1) \<Rightarrow> (None, w1))
      | None \<Rightarrow> (None, w))"

definition deleteComponent ::
  "('n, 'e, 'c) env \<Rightarrow> string \<Rightarrow> ('n, 'e, 'c) world \<Rightarrow> unit promise \<times> ('n, 'e, 'c) world" where
  "deleteComponent env key w =
     (case deleteComponent_request key w of
        (Some i, w1) \<Rightarrow> removeFlow_answer env i w1
      | (None, w1) \<Rightarrow> (Pending, w1))"

text \<open>
  \<open>addFlow\<close> is an \<open>async\<close> function. A call runs at once up to its first \<open>await\<close>, the
  one on \<open>saveFlowToDatabase\<close>, and goes on when the gateway answers. \<open>addFlow_start\<close> is
  the first part: it ends either settled (the paste, which has no \<open>await\<close>, and the
  exceptions) or waiting for the gateway, with the document sent, whether the call is a
  forced replace, and the component whose deletion was requested and is not answered yet.
  \<open>addFlow_resume\<close> is the second part; the gateway answers requests in the order they
  were made.

  With \<open>newProject\<close> false the call only pastes; reading \<open>flow!.data!.nodes\<close> of a
  missing document or of a document without data throws. The forced replace does not wait
  for \<open>deleteComponent\<close> and inserts the new document from a timer 200 ms later.
\<close>

datatype ('n, 'e) task =
    Settled "string option promise"
  | AwaitingSave "('n, 'e) FlowType" bool "string option"

definition addFlow_start ::
  "('n, 'e, 'c) env \<Rightarrow> bool \<Rightarrow> ('n, 'e) FlowType option \<Rightarrow> bool option \<Rightarrow> XYPosition option
     \<Rightarrow> ('n, 'e, 'c) world \<Rightarrow> ('n, 'e) task \<times> ('n, 'e, 'c) world" where
  "addFlow_start env newProject flow override position w =
     (if newProject then
        let flowData =
          (case flow of
             Some fl \<Rightarrow> processDataFromFlow env fl
           | None \<Rightarrow> Some \<lparr>nodes = [], edges = [], viewport = \<lparr>x = 0, y = 0, zoom = 1\<rparr>\<rparr>)
        in if truthy override then
             (case flow of
                None \<Rightarrow> (Settled (Rejected TypeError), w)
              | Some fl \<Rightarrow>
                  let (deleting, w1) = deleteComponent_request (name fl) w;
                      newFlow = createNewFlow env flowData flow;
                      w2 = log (SaveFlowToDatabase newFlow) w1
                  in (AwaitingSave newFlow True deleting, w2))
           else
             let newFlow = createNewFlow env flowData flow;
                 newName = addVersionToDuplicates env newFlow (flows w);
                 newFlow1 = newFlow\<lparr>name := newName\<rparr>;
                 w1 = log (SaveFlowToDatabase newFlow1) w
             in (AwaitingSave newFlow1 False None, w1)
      else
        (case flow of
           None \<Rightarrow> (Settled (Rejected TypeError), w)
         | Some fl \<Rightarrow>
             (case data fl of
                None \<Rightarrow> (Settled (Rejected TypeError), w)
              | Some d \<Rightarrow>
                  (Settled (Resolved None),
                   paste env \<lparr>nodes = nodes d, edges = edges d\<rparr>
                     (case position of Some p \<Rightarrow> p | None \<Rightarrow> \<lparr>x = 10, y = 10\<rparr>) w))))"

definition addFlow_resume ::
  "('n, 'e, 'c) env \<Rightarrow> ('n, 'e) task \<Rightarrow> ('n, 'e, 'c) world
     \<Rightarrow> string option promise \<times> ('n, 'e, 'c) world" where
  "addFlow_resume env t w =
     (case t of
        Settled r \<Rightarrow> (r, w)
      | AwaitingSave newFlow forced deleting \<Rightarrow>
          let w1 = (case deleting of
                      Some i \<Rightarrow> snd (removeFlow_answer env i w)
                    | None \<Rightarrow> w)
          in case saveFlowToDatabase env newFlow of
               Inl err \<Rightarrow> (Rejected (GatewayError err), w1)
             | Inr i \<Rightarrow>
                 if forced
                 then (Resolved None,
                       snd (setTimeout (InsertFlow (newFlow\<lparr>flow_id := i\<rparr>)) 200 w1))
                 else
                   let newFlow2 = newFlow\<lparr>flow_id := i\<rparr>;
                       (data, fl) = processFlows env (newFlow2 # flows w1);
                       w2 = setFlows fl w1;
                       w3 = w2\<lparr>isLoading := False\<rparr>;
                       w4 = log (SetSavedComponents data) w3
                   in (Resolved (Some i), w4))"

text \<open>A call of \<open>addFlow\<close> that nothing else interleaves with.\<close>

definition addFlow ::
  "('n, 'e, 'c) env \<Rightarrow> bool \<Rightarrow> ('n, 'e) FlowType option \<Rightarrow> bool option \<Rightarrow> XYPosition option
     \<Rightarrow> ('n, 'e, 'c) world \<Rightarrow> string option promise \<times> ('n, 'e, 'c) world" where
  "addFlow env newProject flow override position w =
     (let (t, w1) = addFlow_start env newProject flow override position w
      in addFlow_resume env t w1)"

text \<open>
  The \<open>forEach\<close> of \<open>uploadFlow\<close> over a bundle: every \<open>addFlow\<close> call is started, one
  after the other, before any of them goes on, since none is awaited.
\<close>

fun start_all ::
  "('n, 'e, 'c) env \<Rightarrow> bool \<Rightarrow> XYPosition \<Rightarrow> ('n, 'e) FlowType list \<Rightarrow> ('n, 'e, 'c) world
     \<Rightarrow> ('n, 'e) task list \<times> ('n, 'e, 'c) world" where
  "start_all env newProject position [] w = ([], w)"
| "start_all env newProject position (flow # fls) w =
     (let (t, w1) = addFlow_start env newProject (Some flow) None (Some position) w;
          (ts, w2) = start_all env newProject position fls w1
      in (t # ts, w2))"

fun resume_all ::
  "('n, 'e, 'c) env \<Rightarrow> ('n, 'e) task list \<Rightarrow> ('n, 'e, 'c) world \<Rightarrow> ('n, 'e, 'c) world" where
  "resume_all env [] w = w"
| "resume_all env (t # ts) w = resume_all env ts (snd (addFlow_resume env t w))"

text \<open>
  \<open>uploadFlow\<close>. The executor of its promise is an \<open>async\<close> function, so an exception in
  it (from \<open>JSON.parse\<close> or from an awaited \<open>addFlow\<close>) leaves the promise pending. With
  no file, \<open>picked\<close> is the file the user chooses in the dialog, if any.
\<close>

definition uploadFlow ::
  "('n, 'e, 'c) env \<Rightarrow> bool \<Rightarrow> File option \<Rightarrow> bool option \<Rightarrow> XYPosition option \<Rightarrow> File option
     \<Rightarrow> ('n, 'e, 'c) world \<Rightarrow> string option promise \<times> ('n, 'e, 'c) world" where
  "uploadFlow env newProject file isComponent_arg position_arg picked w =
     (let isComponent = (case isComponent_arg of Some b \<Rightarrow> b | None \<Rightarrow> False);
          position = (case position_arg of Some p \<Rightarrow> p | None \<Rightarrow> \<lparr>x = 10, y = 10\<rparr>)
      in case file of
           Some f \<Rightarrow>
             (case JSON_parse env (file_text f) of
                None \<Rightarrow> (Pending, w)
              | Some fdata \<Rightarrow>
                  if newProject \<and>
                     ((\<not> js_truthy (is_component fdata) \<and> isComponent = True) \<or>
                      (is_component fdata \<noteq> Undefined \<and>
                       is_component fdata \<noteq> Boolean isComponent))
                  then (Rejected (Message
                          ''You cannot upload a component as a flow or vice versa''), w)
                  else
                    (case file_flows fdata of
                       Some fls \<Rightarrow>
                         (let (ts, w1) = start_all env newProject position fls w
                          in (Resolved (Some ''''), resume_all env ts w1))
                     | None \<Rightarrow>
                         (case addFlow env newProject (Some (FlowType.truncate fdata)) None
                                 (Some position) w of
                            (Resolved i, v) \<Rightarrow> (Resolved i, v)
                          | (_, v) \<Rightarrow> (Pending, v))))
         | None \<Rightarrow>
             (case picked of
                None \<Rightarrow> (Pending, w)
              | Some currentfile \<Rightarrow>
                  if file_type currentfile = ''application/json''
                  then
                    (case JSON_parse env (file_text currentfile) of
                       None \<Rightarrow> (Pending, w)
                     | Some fdata \<Rightarrow>
                         if (\<not> js_truthy (is_component fdata) \<and> isComponent = True) \<or>
                            (is_component fdata \<noteq> Undefined \<and>
                             is_component fdata \<noteq> Boolean isComponent)
                         then (Rejected (Message
                                 ''You cannot upload a component as a flow or vice versa''), w)
                         else
                           (case addFlow env newProject (Some (FlowType.truncate fdata)) None
                                   None w of
                              (Resolved i, v) \<Rightarrow> (Resolved i, v)
                            | (_, v) \<Rightarrow> (Pending, v)))
                  else (Pending, w)))"

subsection \<open>Autosave\<close>

text \<open>
  \<open>saveTimeoutId\<close> is declared \<open>NodeJS.Timeout | null\<close>: a timer handle is truthy, so the
  test \<open>if (saveTimeoutId)\<close> asks whether a timer was ever scheduled. The timer it names
  may have fired already; clearing it then changes nothing.
\<close>

definition autoSaveCurrentFlow ::
  "'n list \<Rightarrow> 'e list \<Rightarrow> Viewport \<Rightarrow> ('n, 'e, 'c) world \<Rightarrow> ('n, 'e, 'c) world" where
  "autoSaveCurrentFlow ns es vp w =
     (let w1 = (case saveTimeoutId w of Some i \<Rightarrow> clearTimeout i w | None \<Rightarrow> w);
          (i, w2) = setTimeout (AutoSave ns es vp) 300 w1
      in w2\<lparr>saveTimeoutId := Some i\<rparr>)"

text \<open>
  What a timer runs when it fires: the arrow function of \<open>autoSaveCurrentFlow\<close>, which
  reads the current document at that moment, and the one of the forced replace in
  \<open>addFlow\<close>.
\<close>

definition run_callback ::
  "('n, 'e, 'c) env \<Rightarrow> ('n, 'e) callback \<Rightarrow> ('n, 'e, 'c) world \<Rightarrow> ('n, 'e, 'c) world" where
  "run_callback env cb w =
     (case cb of
        AutoSave ns es vp \<Rightarrow>
          (case currentFlow w of
             Some cf \<Rightarrow>
               snd (saveFlow env (cf\<lparr>data := Some \<lparr>nodes = ns, edges = es, viewport = vp\<rparr>\<rparr>)
                      (Some True) w)
           | None \<Rightarrow> w)
      | InsertFlow newFlow \<Rightarrow>
          let (data, fl) = processFlows env (newFlow # flows w);
              w1 = setFlows fl w;
              w2 = w1\<lparr>isLoading := False\<rparr>
          in log (SetSavedComponents data) w2)"

text \<open>
  The event loop while \<open>d\<close> milliseconds pass: the timers that are due by then fire, in
  the order of their due times, and leave the list of pending timers.
\<close>

definition elapse ::
  "('n, 'e, 'c) env \<Rightarrow> nat \<Rightarrow> ('n, 'e, 'c) world \<Rightarrow> ('n, 'e, 'c) world" where
  "elapse env d w =
     (let t = now w + d;
          ready = sort_key due (filter (\<lambda>tm. due tm \<le> t) (timers w));
          w1 = w\<lparr>now := t, timers := filter (\<lambda>tm. \<not> due tm \<le> t) (timers w)\<rparr>
      in fold (\<lambda>tm v. run_callback env (timer_callback tm) v) ready w1)"

text \<open>A run of the autosave coordinator: calls of \<open>autoSaveCurrentFlow\<close> and time passing.\<close>

datatype ('n, 'e) autosave_event = AutoSaveCall "'n list" "'e list" Viewport | Elapse nat

fun autosave_step ::
  "('n, 'e, 'c) env \<Rightarrow> ('n, 'e) autosave_event \<Rightarrow> ('n, 'e, 'c) world \<Rightarrow> ('n, 'e, 'c) world" where
  "autosave_step env (AutoSaveCall ns es vp) w = autoSaveCurrentFlow ns es vp w"
| "autosave_step env (Elapse d) w = elapse env d w"

fun autosave_run ::
  "('n, 'e, 'c) env \<Rightarrow> ('n, 'e) autosave_event list \<Rightarrow> ('n, 'e, 'c) world \<Rightarrow> ('n, 'e, 'c) world" where
  "autosave_run env [] w = w"
| "autosave_run env (a # as) w = autosave_run env as (autosave_step env a w)"

text \<open>The documents sent to \<open>updateFlowInDatabase\<close>, in order.\<close>

fun saved_flows :: "('n, 'e, 'c) call list \<Rightarrow> ('n, 'e) FlowType list" where
  "saved_flows [] = []"
| "saved_flows (UpdateFlowInDatabase flow # cs) = flow # saved_flows cs"
| "saved_flows (c # cs) = saved_flows cs"

text \<open>The calls that reach the persistence gateway.\<close>

fun gateway_call :: "('n, 'e, 'c) call \<Rightarrow> bool" where
  "gateway_call (SaveFlowToDatabase flow) = True"
| "gateway_call (UpdateFlowInDatabase flow) = True"
| "gateway_call (DeleteFlowFromDatabase i) = True"
| "gateway_call c = False"

text \<open>
  What a paste leaves alone: the calls that reached the gateway, the collection, the
  current identifier and the current document.
\<close>

definition untouched :: "('n, 'e, 'c) world \<Rightarrow> ('n, 'e, 'c) world \<Rightarrow> bool" where
  "untouched w v =
     (filter gateway_call (calls v) = filter gateway_call (calls w) \<and>
      flows v = flows w \<and> currentFlowId v = currentFlowId w \<and> currentFlow v = currentFlow w)"


subsection \<open>Concrete inputs\<close>

text \<open>
  The store as the module creates it, with an empty graph in the flow store and no timer
  pending. Timer identifiers start at 1, as in a browser.
\<close>

definition init_world :: "('n, 'e, 'c) world" where
  "init_world =
     \<lparr>currentFlowId = '''', flows = [], currentFlow = None, isLoading = True,
      saveTimeoutId = None, past = Map.empty, future = Map.empty,
      flowStore = \<lparr>nodes = [], edges = []\<rparr>, now = 0, timers = [], nextTimerId = 1,
      calls = []\<rparr>"

text \<open>
  Graphs whose nodes and edges are characters, a serialisation for them, the store with the
  document \<open>f\<close> current, and \<open>n\<close> edits each followed by a snapshot.
\<close>

definition text_of_graph :: "(char, char) graph \<Rightarrow> string" where
  "text_of_graph g = nodes g @ ''|'' @ edges g"

definition graph_of :: "nat \<Rightarrow> (char, char) graph" where
  "graph_of i = \<lparr>nodes = replicate i (CHR ''a''), edges = []\<rparr>"

definition doc_world :: "(char, char, unit) world" where
  "doc_world = init_world\<lparr>currentFlowId := ''f''\<rparr>"

definition snapshots :: "nat \<Rightarrow> (char, char) history_op list" where
  "snapshots n = concat (map (\<lambda>i. [Edit (graph_of i), TakeSnapshot]) [0..<n])"

text \<open>
  A component document as \<open>JSON.parse\<close> returns it, the same document without a graph, a
  bundle of the two, the files that hold them, and simple stand-ins for the external
  functions: the gateway accepts every request, and a paste appends the pasted nodes and
  edges to the graph.
\<close>

definition component_doc :: "(char, char) fileData" where
  "component_doc =
     \<lparr>name = ''C'', flow_id = ''1'',
      data = Some \<lparr>nodes = ''n'', edges = ''e'', viewport = \<lparr>x = 0, y = 0, zoom = 1\<rparr>\<rparr>,
      is_component = Boolean True, file_flows = None\<rparr>"

definition nodata_doc :: "(char, char) fileData" where
  "nodata_doc = component_doc\<lparr>data := None\<rparr>"

definition bundle_doc :: "(char, char) fileData" where
  "bundle_doc =
     component_doc\<lparr>file_flows :=
       Some [FlowType.truncate component_doc, FlowType.truncate nodata_doc]\<rparr>"

definition component_file :: File where
  "component_file = \<lparr>file_type = ''application/json'', file_text = ''component''\<rparr>"

definition nodata_file :: File where
  "nodata_file = \<lparr>file_type = ''application/json'', file_text = ''nodata''\<rparr>"

definition bundle_file :: File where
  "bundle_file = \<lparr>file_type = ''application/json'', file_text = ''bundle''\<rparr>"

definition demo_env :: "(char, char, unit) env" where
  "demo_env =
     \<lparr>JSON_parse = (\<lambda>t. if t = ''component'' then Some component_doc
                          else if t = ''nodata'' then Some nodata_doc
                          else if t = ''bundle'' then Some bundle_doc
                          else None),
      processDataFromFlow = data,
      createNewFlow = (\<lambda>d fl. \<lparr>name = (case fl of Some f \<Rightarrow> name f | None \<Rightarrow> ''New Flow''),
                                 flow_id = '''', data = d,
                                 is_component = (case fl of Some f \<Rightarrow> is_component f
                                                 | None \<Rightarrow> Undefined)\<rparr>),
      addVersionToDuplicates = (\<lambda>fl fls. name fl),
      processFlows = (\<lambda>fls. ((), fls)),
      saveFlowToDatabase = (\<lambda>fl. Inr ''id''),
      updateFlowInDatabase = (\<lambda>fl. Inr (Some fl)),
      deleteFlowFromDatabase = (\<lambda>i. True),
      paste_graph = (\<lambda>g p old. \<lparr>nodes = nodes old @ nodes g, edges = edges old @ edges g\<rparr>)\<rparr>"

text \<open>The store with the component document loaded and current.\<close>

definition open_world :: "(char, char, unit) world" where
  "open_world =
     setCurrentFlowId ''1'' (setFlows [FlowType.truncate component_doc] init_world)"

section \<open>Properties of the history\<close>

subsection \<open>What each operation does\<close>

lemma graph_eta: "\<lparr>nodes = nodes g, edges = edges g\<rparr> = (g :: ('n, 'e) graph)"
  by (cases g) simp

text \<open>
  The slice of \<open>takeSnapshot\<close>. Its start index \<open>pastLength - 99\<close> is negative below 99
  entries and then counts from the end: from 50 entries on, \<open>2 * pastLength - 99\<close>
  entries are dropped from the front.
\<close>

lemma slice_evict:
  "js_slice xs (int (length xs) - maxHistorySize defaultOptions + 1) (int (length xs)) =
     drop (if length xs < 50 then 0 else if length xs < 99 then 2 * length xs - 99
           else length xs - 99) xs"
proof -
  let ?n = "length xs"
  consider "?n < 50" | "50 \<le> ?n" "?n < 99" | "99 \<le> ?n" by linarith
  then show ?thesis
  proof cases
    case 1
    then show ?thesis by (simp add: js_slice_def defaultOptions_def Let_def)
  next
    case 2
    then have "nat (2 * int ?n - 99) = 2 * ?n - 99" by linarith
    with 2 show ?thesis by (simp add: js_slice_def defaultOptions_def Let_def)
  next
    case 3
    then have "nat (int ?n - 99) = ?n - 99" by linarith
    with 3 show ?thesis by (simp add: js_slice_def defaultOptions_def Let_def)
  qed
qed

lemma slice_pop: "js_slice xs 0 (int (length xs) - 1) = butlast xs"
  by (auto simp: js_slice_def Let_def max_def min_def butlast_conv_take nat_diff_distrib)

lemma dedup_iff:
  "dedup stringify w \<longleftrightarrow>
     stack (past w) (currentFlowId w) \<noteq> [] \<and>
     stringify (last (stack (past w) (currentFlowId w))) = stringify (flowStore w)"
  by (auto simp: dedup_def Let_def cloneDeep_def graph_eta last_conv_nth)

lemma takeSnapshot_noop: "dedup stringify w \<Longrightarrow> takeSnapshot stringify w = w"
  by (simp add: dedup_def takeSnapshot_def Let_def)

lemma takeSnapshot_new:
  "\<not> dedup stringify w \<Longrightarrow>
   takeSnapshot stringify w =
     w\<lparr>past := (past w)(currentFlowId w \<mapsto>
          (let ps = stack (past w) (currentFlowId w)
           in drop (if length ps < 50 then 0 else if length ps < 99 then 2 * length ps - 99
                    else length ps - 99) ps @ [flowStore w])),
       future := (future w)(currentFlowId w \<mapsto> [])\<rparr>"
  by (auto simp add: dedup_def takeSnapshot_def Let_def cloneDeep_def graph_eta slice_evict)

lemma takeSnapshot_currentFlowId [simp]: "currentFlowId (takeSnapshot s w) = currentFlowId w"
  by (cases "dedup s w") (simp_all add: takeSnapshot_noop takeSnapshot_new)

lemma takeSnapshot_flowStore [simp]: "flowStore (takeSnapshot s w) = flowStore w"
  by (cases "dedup s w") (simp_all add: takeSnapshot_noop takeSnapshot_new)

lemma takeSnapshot_past_nonempty:
  "stack (past (takeSnapshot s w)) (currentFlowId w) \<noteq> []"
proof (cases "dedup s w")
  case True
  then show ?thesis by (simp add: takeSnapshot_noop dedup_iff)
next
  case False
  then show ?thesis by (simp add: takeSnapshot_new stack_def Let_def)
qed

lemma undo_empty: "stack (past w) (currentFlowId w) = [] \<Longrightarrow> undo w = w"
  by (simp add: undo_def Let_def)

lemma undo_pop:
  "stack (past w) (currentFlowId w) \<noteq> [] \<Longrightarrow>
   undo w =
     w\<lparr>past := (past w)(currentFlowId w \<mapsto> butlast (stack (past w) (currentFlowId w))),
       future := (future w)(currentFlowId w \<mapsto>
         stack (future w) (currentFlowId w) @ [flowStore w]),
       flowStore := last (stack (past w) (currentFlowId w)),
       calls := calls w @ [SetNodes (nodes (last (stack (past w) (currentFlowId w)))),
                           SetEdges (edges (last (stack (past w) (currentFlowId w))))]\<rparr>"
  by (simp add: undo_def Let_def slice_pop graph_eta last_conv_nth setNodes_def
      setEdges_def stack_def)

lemma redo_empty: "stack (future w) (currentFlowId w) = [] \<Longrightarrow> redo w = w"
  by (simp add: redo_def Let_def)

lemma redo_pop:
  "stack (future w) (currentFlowId w) \<noteq> [] \<Longrightarrow>
   redo w =
     w\<lparr>future := (future w)(currentFlowId w \<mapsto>
         butlast (stack (future w) (currentFlowId w))),
       past := (past w)(currentFlowId w \<mapsto>
         stack (past w) (currentFlowId w) @ [flowStore w]),
       flowStore := last (stack (future w) (currentFlowId w)),
       calls := calls w @ [SetNodes (nodes (last (stack (future w) (currentFlowId w)))),
                           SetEdges (edges (last (stack (future w) (currentFlowId w))))]\<rparr>"
  by (simp add: redo_def Let_def slice_pop graph_eta last_conv_nth setNodes_def
      setEdges_def stack_def)

lemma undo_currentFlowId [simp]: "currentFlowId (undo w) = currentFlowId w"
  by (cases "stack (past w) (currentFlowId w) = []") (simp_all add: undo_empty undo_pop)

lemma redo_currentFlowId [simp]: "currentFlowId (redo w) = currentFlowId w"
  by (cases "stack (future w) (currentFlowId w) = []") (simp_all add: redo_empty redo_pop)

lemma edit_history [simp]:
  "past (setEdges es (setNodes ns w)) = past w"
  "future (setEdges es (setNodes ns w)) = future w"
  "currentFlowId (setEdges es (setNodes ns w)) = currentFlowId w"
  by (simp_all add: setEdges_def setNodes_def)

subsection \<open>The bound the code keeps\<close>

lemma takeSnapshot_le_50:
  assumes "length (stack (past w) (currentFlowId w)) \<le> 50"
  shows "length (stack (past (takeSnapshot s w)) (currentFlowId w)) \<le> 50"
proof (cases "dedup s w")
  case True
  with assms show ?thesis by (simp add: takeSnapshot_noop)
next
  case False
  with assms show ?thesis
    by (simp add: takeSnapshot_new stack_def Let_def)
qed

lemma snapshots_le_50:
  "length (stack (past w) (currentFlowId w)) \<le> 50 \<Longrightarrow>
   \<forall>a\<in>set ops. a \<noteq> Undo \<and> a \<noteq> Redo \<Longrightarrow>
   length (stack (past (history_run s ops w)) (currentFlowId w)) \<le> 50"
proof (induction ops arbitrary: w)
  case Nil
  then show ?case by simp
next
  case (Cons a ops)
  have cid: "currentFlowId (history_step s a w) = currentFlowId w"
    by (cases a) simp_all
  have "length (stack (past (history_step s a w)) (currentFlowId w)) \<le> 50"
  proof (cases a)
    case TakeSnapshot
    with Cons.prems(1) show ?thesis by (simp add: takeSnapshot_le_50)
  next
    case (Edit g)
    with Cons.prems(1) show ?thesis by simp
  qed (use Cons.prems(2) in auto)
  moreover from Cons.prems(2) have "\<forall>a\<in>set ops. a \<noteq> Undo \<and> a \<noteq> Redo" by simp
  ultimately show ?case using Cons.IH [of "history_step s a w"] by (simp add: cid)
qed

subsection \<open>Undo followed by redo\<close>

lemma undo_then_redo:
  assumes "stack (past w) (currentFlowId w) \<noteq> []"
  shows "flowStore (redo (undo w)) = flowStore w"
    and "past (redo (undo w)) =
           (past w)(currentFlowId w \<mapsto> stack (past w) (currentFlowId w))"
    and "future (redo (undo w)) =
           (future w)(currentFlowId w \<mapsto> stack (future w) (currentFlowId w))"
proof -
  let ?u = "undo w"
  have u: "stack (future ?u) (currentFlowId ?u) \<noteq> []"
    by (simp add: undo_pop [OF assms] stack_def)
  show "flowStore (redo ?u) = flowStore w"
    by (simp add: redo_pop [OF u]) (simp add: undo_pop [OF assms] stack_def)
  show "past (redo ?u) = (past w)(currentFlowId w \<mapsto> stack (past w) (currentFlowId w))"
    using assms by (simp add: redo_pop [OF u]) (simp add: undo_pop [OF assms] stack_def)
  show "future (redo ?u) =
          (future w)(currentFlowId w \<mapsto> stack (future w) (currentFlowId w))"
    by (simp add: redo_pop [OF u]) (simp add: undo_pop [OF assms] stack_def)
qed

subsection \<open>Runs of edits and snapshots\<close>

lemma history_run_append: "history_run s (as @ bs) w = history_run s bs (history_run s as w)"
  by (induction as arbitrary: w) simp_all

lemma snapshots_Suc: "snapshots (Suc n) = snapshots n @ [Edit (graph_of n), TakeSnapshot]"
  by (simp add: snapshots_def)

lemma text_of_graph_of: "text_of_graph (graph_of i) = replicate i (CHR ''a'') @ ''|''"
  by (simp add: text_of_graph_def graph_of_def)

lemma text_of_graph_inj: "text_of_graph (graph_of i) = text_of_graph (graph_of j) \<longleftrightarrow> i = j"
proof
  assume "text_of_graph (graph_of i) = text_of_graph (graph_of j)"
  then have "length (text_of_graph (graph_of i)) = length (text_of_graph (graph_of j))"
    by simp
  then show "i = j" by (simp add: text_of_graph_of)
qed simp

text \<open>
  Up to fifty edits to fresh graphs, each followed by a snapshot, fill the past stack of
  document \<open>f\<close> with these graphs, oldest first.
\<close>

lemma run_snapshots:
  "n \<le> 50 \<Longrightarrow>
   currentFlowId (history_run text_of_graph (snapshots n) doc_world) = ''f'' \<and>
   stack (past (history_run text_of_graph (snapshots n) doc_world)) ''f'' = map graph_of [0..<n]"
proof (induction n)
  case 0
  show ?case by (simp add: snapshots_def doc_world_def init_world_def stack_def)
next
  case (Suc n)
  let ?v = "history_run text_of_graph (snapshots n) doc_world"
  let ?e = "setEdges (edges (graph_of n)) (setNodes (nodes (graph_of n)) ?v)"
  from Suc have cid: "currentFlowId ?v = ''f''"
    and ps: "stack (past ?v) ''f'' = map graph_of [0..<n]" and n: "n < 50"
    by simp_all
  have live: "flowStore ?e = graph_of n"
    by (simp add: setEdges_def setNodes_def graph_eta)
  have "\<not> dedup text_of_graph ?e"
  proof (cases n)
    case 0
    with ps cid show ?thesis by (simp add: dedup_iff)
  next
    case (Suc m)
    with ps have "last (stack (past ?v) ''f'') = graph_of m" by simp
    with Suc cid live show ?thesis by (simp add: dedup_iff text_of_graph_inj)
  qed
  then have "takeSnapshot text_of_graph ?e =
      ?e\<lparr>past := (past ?e)(''f'' \<mapsto> map graph_of [0..<n] @ [graph_of n]),
          future := (future ?e)(''f'' \<mapsto> [])\<rparr>"
    using n ps cid live by (simp add: takeSnapshot_new)
  then show ?case
    by (simp add: snapshots_Suc history_run_append cid stack_def)
qed

subsection \<open>Histories without edits\<close>

text \<open>
  When the graph is never edited between the calls, the two stacks of the current document
  hold one entry at most between them, a copy of the live graph. Then a snapshot always
  leaves the future stack empty: the state in which a duplicate snapshot meets a non-empty
  future stack needs an edit after an undo.
\<close>

lemma no_edit_step:
  assumes "length (stack (past w) (currentFlowId w))
             + length (stack (future w) (currentFlowId w)) \<le> 1"
      and "set (stack (past w) (currentFlowId w)) \<subseteq> {flowStore w}"
      and "set (stack (future w) (currentFlowId w)) \<subseteq> {flowStore w}"
      and "a = TakeSnapshot \<or> a = Undo \<or> a = Redo"
  shows "length (stack (past (history_step s a w)) (currentFlowId w))
           + length (stack (future (history_step s a w)) (currentFlowId w)) \<le> 1
         \<and> set (stack (past (history_step s a w)) (currentFlowId w))
             \<subseteq> {flowStore (history_step s a w)}
         \<and> set (stack (future (history_step s a w)) (currentFlowId w))
             \<subseteq> {flowStore (history_step s a w)}
         \<and> (a = TakeSnapshot \<longrightarrow>
               stack (future (history_step s a w)) (currentFlowId w) = [])"
proof -
  let ?ps = "stack (past w) (currentFlowId w)"
  let ?fs = "stack (future w) (currentFlowId w)"
  from assms(4) consider "a = TakeSnapshot" | "a = Undo" | "a = Redo" by blast
  then show ?thesis
  proof cases
    case 1
    show ?thesis
    proof (cases "dedup s w")
      case True
      then have "?ps \<noteq> []" by (simp add: dedup_iff)
      with assms(1) have "?fs = []" by (cases ?ps) simp_all
      with 1 True assms show ?thesis by (simp add: takeSnapshot_noop)
    next
      case False
      have "?ps = []"
      proof (rule ccontr)
        assume ne: "?ps \<noteq> []"
        then have "last ?ps \<in> set ?ps" by simp
        with assms(2) have "last ?ps = flowStore w" by blast
        with ne False show False by (simp add: dedup_iff)
      qed
      with 1 False show ?thesis by (simp add: takeSnapshot_new stack_def)
    qed
  next
    case 2
    show ?thesis
    proof (cases "?ps = []")
      case True
      with 2 assms show ?thesis by (simp add: undo_empty)
    next
      case False
      with assms(1) have f: "?fs = []" and l: "length ?ps = 1"
        by (cases ?ps; simp)+
      from l obtain e where e: "?ps = [e]" by (cases ?ps) simp_all
      with assms(2) have "e = flowStore w" by simp
      with 2 False f e show ?thesis by (simp add: undo_pop stack_def)
    qed
  next
    case 3
    show ?thesis
    proof (cases "?fs = []")
      case True
      with 3 assms show ?thesis by (simp add: redo_empty)
    next
      case False
      with assms(1) have p: "?ps = []" and l: "length ?fs = 1"
        by (cases ?fs; simp)+
      from l obtain e where e: "?fs = [e]" by (cases ?fs) simp_all
      with assms(3) have "e = flowStore w" by simp
      with 3 False p e show ?thesis by (simp add: redo_pop stack_def)
    qed
  qed
qed

lemma no_edit_run:
  "length (stack (past w) (currentFlowId w))
     + length (stack (future w) (currentFlowId w)) \<le> 1 \<Longrightarrow>
   set (stack (past w) (currentFlowId w)) \<subseteq> {flowStore w} \<Longrightarrow>
   set (stack (future w) (currentFlowId w)) \<subseteq> {flowStore w} \<Longrightarrow>
   \<forall>a\<in>set ops. a = TakeSnapshot \<or> a = Undo \<or> a = Redo \<Longrightarrow>
   stack (future (takeSnapshot s (history_run s ops w))) (currentFlowId w) = []"
proof (induction ops arbitrary: w)
  case Nil
  from no_edit_step [OF Nil(1-3), of TakeSnapshot s] show ?case by simp
next
  case (Cons a ops)
  from Cons.prems(4) have a: "a = TakeSnapshot \<or> a = Undo \<or> a = Redo" by simp
  have cid: "currentFlowId (history_step s a w) = currentFlowId w"
    by (cases a) simp_all
  from no_edit_step [OF Cons.prems(1-3) a, of s] Cons.prems(4)
    Cons.IH [of "history_step s a w"]
  show ?case by (simp add: cid)
qed

section \<open>Properties of the autosave\<close>

lemma autoSave_timers:
  "timers (autoSaveCurrentFlow ns es vp w) =
     filter (\<lambda>t. Some (timer_id t) \<noteq> saveTimeoutId w) (timers w) @
     [\<lparr>timer_id = nextTimerId w, due = now w + 300, timer_callback = AutoSave ns es vp\<rparr>]"
  by (simp add: autoSaveCurrentFlow_def setTimeout_def clearTimeout_def split: option.splits)

lemma autoSave_saveTimeoutId:
  "saveTimeoutId (autoSaveCurrentFlow ns es vp w) = Some (nextTimerId w)"
  by (simp add: autoSaveCurrentFlow_def setTimeout_def clearTimeout_def split: option.splits)

lemma autoSave_frame:
  "now (autoSaveCurrentFlow ns es vp w) = now w"
  "nextTimerId (autoSaveCurrentFlow ns es vp w) = Suc (nextTimerId w)"
  "currentFlow (autoSaveCurrentFlow ns es vp w) = currentFlow w"
  "calls (autoSaveCurrentFlow ns es vp w) = calls w"
  by (simp_all add: autoSaveCurrentFlow_def setTimeout_def clearTimeout_def
      split: option.splits)

text \<open>No callback touches the timers, the clock or \<open>saveTimeoutId\<close>.\<close>

lemma saveFlow_frame:
  "timers (snd (saveFlow env flow silent v)) = timers v"
  "saveTimeoutId (snd (saveFlow env flow silent v)) = saveTimeoutId v"
  "now (snd (saveFlow env flow silent v)) = now v"
  by (simp_all add: saveFlow_def setFlows_def log_def Let_def split: sum.splits option.splits)

lemma run_callback_frame:
  "timers (run_callback env cb v) = timers v"
  "saveTimeoutId (run_callback env cb v) = saveTimeoutId v"
  "now (run_callback env cb v) = now v"
  by (simp_all add: run_callback_def saveFlow_frame setFlows_def log_def Let_def
      split: callback.splits option.splits prod.splits)

lemma fold_callbacks_frame:
  "timers (fold (\<lambda>tm. run_callback env (timer_callback tm)) ts v) = timers v \<and>
   saveTimeoutId (fold (\<lambda>tm. run_callback env (timer_callback tm)) ts v) = saveTimeoutId v \<and>
   now (fold (\<lambda>tm. run_callback env (timer_callback tm)) ts v) = now v"
  by (induction ts arbitrary: v) (simp_all add: run_callback_frame)

lemma elapse_frame:
  "timers (elapse env d w) = filter (\<lambda>tm. \<not> due tm \<le> now w + d) (timers w)"
  "saveTimeoutId (elapse env d w) = saveTimeoutId w"
  "now (elapse env d w) = now w + d"
  by (simp_all add: elapse_def Let_def fold_callbacks_frame)

lemma elapse_early:
  assumes "timers w = [t]" and "now w + d < due t"
  shows "elapse env d w = w\<lparr>now := now w + d\<rparr>"
  using assms by (simp add: elapse_def Let_def)

lemma elapse_fire:
  assumes "timers w = [t]" and "due t \<le> now w + d"
  shows "elapse env d w = run_callback env (timer_callback t) (w\<lparr>now := now w + d, timers := []\<rparr>)"
  using assms by (simp add: elapse_def Let_def)

lemma saved_flows_append: "saved_flows (cs @ ds) = saved_flows cs @ saved_flows ds"
  by (induction cs rule: saved_flows.induct) simp_all

lemma saved_flows_saveFlow:
  "saved_flows (calls (snd (saveFlow env flow silent v))) = saved_flows (calls v) @ [flow]"
  by (simp add: saveFlow_def setFlows_def log_def Let_def saved_flows_append
      split: sum.splits option.splits)

text \<open>
  When nothing is pending at the start, at most one timer is pending at any time, and
  \<open>saveTimeoutId\<close> names it.
\<close>

lemma autosave_step_one_pending:
  assumes "timers w = [] \<or> (\<exists>t. timers w = [t] \<and> saveTimeoutId w = Some (timer_id t))"
  shows "timers (autosave_step env a w) = [] \<or>
         (\<exists>t. timers (autosave_step env a w) = [t] \<and> saveTimeoutId (autosave_step env a w) = Some (timer_id t))"
proof (cases a)
  case (AutoSaveCall ns es vp)
  with assms show ?thesis
    by (auto simp add: autoSave_timers autoSave_saveTimeoutId)
next
  case (Elapse d)
  from assms show ?thesis
  proof
    assume "timers w = []"
    with Elapse show ?thesis by (simp add: elapse_frame)
  next
    assume "\<exists>t. timers w = [t] \<and> saveTimeoutId w = Some (timer_id t)"
    then obtain t where "timers w = [t]" and "saveTimeoutId w = Some (timer_id t)"
      by blast
    with Elapse show ?thesis
      by (cases "due t \<le> now w + d") (simp_all add: elapse_frame)
  qed
qed

lemma autosave_run_one_pending:
  "timers w = [] \<or> (\<exists>t. timers w = [t] \<and> saveTimeoutId w = Some (timer_id t)) \<Longrightarrow>
   timers (autosave_run env evs w) = [] \<or>
   (\<exists>t. timers (autosave_run env evs w) = [t] \<and> saveTimeoutId (autosave_run env evs w) = Some (timer_id t))"
proof (induction evs arbitrary: w)
  case Nil
  then show ?case by simp
next
  case (Cons a evs)
  from autosave_step_one_pending [OF Cons.prems] Cons.IH [of "autosave_step env a w"]
  show ?case by simp
qed

text \<open>Three calls less than 300 ms apart, then 300 ms of quiet.\<close>

lemma three_calls:
  assumes "timers w = []" and "currentFlow w = Some cf"
      and "d1 < 300" and "d2 < 300" and "300 \<le> d3"
  shows "saved_flows (calls (autosave_run env
           [AutoSaveCall n1 e1 v1, Elapse d1, AutoSaveCall n2 e2 v2, Elapse d2,
            AutoSaveCall n3 e3 v3, Elapse d3] w))
         = saved_flows (calls w) @
             [cf\<lparr>data := Some \<lparr>nodes = n3, edges = e3, viewport = v3\<rparr>\<rparr>]"
proof -
  let ?a = "autoSaveCurrentFlow n1 e1 v1 w"
  let ?b = "elapse env d1 ?a"
  let ?c = "autoSaveCurrentFlow n2 e2 v2 ?b"
  let ?d = "elapse env d2 ?c"
  let ?e = "autoSaveCurrentFlow n3 e3 v3 ?d"
  let ?t1 = "\<lparr>timer_id = nextTimerId w, due = now w + 300, timer_callback = AutoSave n1 e1 v1\<rparr>"
  let ?t2 = "\<lparr>timer_id = nextTimerId ?b, due = now ?b + 300,
              timer_callback = AutoSave n2 e2 v2\<rparr>"
  let ?t3 = "\<lparr>timer_id = nextTimerId ?d, due = now ?d + 300,
              timer_callback = AutoSave n3 e3 v3\<rparr>"
  have a: "timers ?a = [?t1]" "saveTimeoutId ?a = Some (nextTimerId w)"
    using assms(1) by (simp_all add: autoSave_timers autoSave_saveTimeoutId)
  have b: "?b = ?a\<lparr>now := now ?a + d1\<rparr>"
    using assms(3) by (intro elapse_early [OF a(1)]) (simp add: autoSave_frame)
  have b': "timers ?b = [?t1]" "saveTimeoutId ?b = Some (nextTimerId w)"
    "currentFlow ?b = Some cf" "calls ?b = calls w"
    by (simp_all add: b a autoSave_frame assms(2))
  have c: "timers ?c = [?t2]" "saveTimeoutId ?c = Some (nextTimerId ?b)"
    "currentFlow ?c = Some cf" "calls ?c = calls w"
    by (simp_all add: autoSave_timers autoSave_saveTimeoutId autoSave_frame b')
  have d: "?d = ?c\<lparr>now := now ?c + d2\<rparr>"
    using assms(4) by (intro elapse_early [OF c(1)]) (simp add: autoSave_frame)
  have d': "timers ?d = [?t2]" "saveTimeoutId ?d = Some (nextTimerId ?b)"
    "currentFlow ?d = Some cf" "calls ?d = calls w"
    by (simp_all add: d c)
  have e: "timers ?e = [?t3]" "currentFlow ?e = Some cf" "calls ?e = calls w"
    by (simp_all add: autoSave_timers autoSave_frame d')
  have "elapse env d3 ?e =
          run_callback env (AutoSave n3 e3 v3) (?e\<lparr>now := now ?e + d3, timers := []\<rparr>)"
    using assms(5) elapse_fire [OF e(1), of d3 env] by (simp add: autoSave_frame)
  then have "saved_flows (calls (elapse env d3 ?e)) = saved_flows (calls w) @
             [cf\<lparr>data := Some \<lparr>nodes = n3, edges = e3, viewport = v3\<rparr>\<rparr>]"
    by (simp add: run_callback_def e saved_flows_saveFlow)
  then show ?thesis by simp
qed

section \<open>Claims about the history\<close>

text \<open>
  Claim C1. A call of \<open>takeSnapshot\<close> that pushes an entry while the past stack of the
  document holds fewer than \<open>maxHistorySize\<close> (100) entries evicts nothing: the stack grows
  by one and keeps every earlier entry.

  The code does not do this. After fifty edits, each followed by a snapshot, the stack of
  document \<open>f\<close> holds the fifty graphs 0 to 49; one more edit and snapshot leave it at fifty
  entries, the graphs 1 to 50: the oldest entry is gone although the stack was half full.
\<close>

theorem takeSnapshot_evicts_at_50:
  "stack (past (history_run text_of_graph (snapshots 50) doc_world)) ''f'' = map graph_of [0..<50]
   \<and> stack (past (history_run text_of_graph (snapshots 50 @ [Edit (graph_of 50), TakeSnapshot])
                doc_world)) ''f''
       = map graph_of [1..<51]"
proof -
  let ?v = "history_run text_of_graph (snapshots 50) doc_world"
  let ?e = "setEdges (edges (graph_of 50)) (setNodes (nodes (graph_of 50)) ?v)"
  have cid: "currentFlowId ?v = ''f''"
    and ps: "stack (past ?v) ''f'' = map graph_of [0..<50]"
    using run_snapshots [of 50] by simp_all
  have live: "flowStore ?e = graph_of 50"
    by (simp add: setEdges_def setNodes_def graph_eta)
  have "[0..<50] = [0..<49] @ [49]" by (simp add: upt_rec)
  with ps have "last (stack (past ?v) ''f'') = graph_of 49" by simp
  with ps cid live have "\<not> dedup text_of_graph ?e"
    by (simp add: dedup_iff text_of_graph_inj)
  then have "stack (past (takeSnapshot text_of_graph ?e)) ''f''
               = drop 1 (map graph_of [0..<50]) @ [graph_of 50]"
    using ps cid live by (simp add: takeSnapshot_new stack_def)
  also have "\<dots> = map graph_of ([1..<50] @ [50])"
    by (simp add: drop_map del: upt_Suc)
  also have "[1..<50] @ [50] = [1..<51::nat]" by (simp add: upt_rec)
  finally show ?thesis using ps by (simp add: history_run_append)
qed

text \<open>
  Claim C2, as amended. A call of \<open>takeSnapshot\<close> whose deduplication check does not fire
  leaves the future stack of the current document empty; a call whose check fires leaves
  every future stack as it was, empty or not.
\<close>

theorem takeSnapshot_future:
  "future (takeSnapshot stringify w) =
     (if dedup stringify w then future w else (future w)(currentFlowId w \<mapsto> []))"
  by (simp add: takeSnapshot_new takeSnapshot_noop)

theorem takeSnapshot_future_witness:
  "\<not> dedup text_of_graph doc_world
   \<and> future (takeSnapshot text_of_graph doc_world) ''f'' = Some []
   \<and> dedup text_of_graph (takeSnapshot text_of_graph doc_world)
   \<and> future (takeSnapshot text_of_graph (takeSnapshot text_of_graph doc_world)) ''f''
       = Some []"
proof -
  have a: "\<not> dedup text_of_graph doc_world" by code_simp
  have b: "dedup text_of_graph (takeSnapshot text_of_graph doc_world)" by code_simp
  have c: "currentFlowId doc_world = ''f''" by (simp add: doc_world_def)
  show ?thesis
    using takeSnapshot_future [of text_of_graph doc_world]
      takeSnapshot_future [of text_of_graph "takeSnapshot text_of_graph doc_world"]
    by (simp add: a b c)
qed

text \<open>
  Claim C2, as stated: after any \<open>takeSnapshot\<close> the future stack of the current document
  is empty, also when the deduplication check fires. It fails on this run: two snapshots,
  an undo, and an edit that brings the graph back to the entry on top of the past stack.
  The last snapshot is a duplicate, returns early and leaves the undone graph on the future
  stack.
\<close>

theorem takeSnapshot_future_counterexample:
  "dedup text_of_graph
     (history_run text_of_graph
        [Edit (graph_of 1), TakeSnapshot, Edit (graph_of 2), TakeSnapshot, Undo,
         Edit (graph_of 1)] doc_world)
   \<and> stack (future (history_run text_of_graph
        [Edit (graph_of 1), TakeSnapshot, Edit (graph_of 2), TakeSnapshot, Undo,
         Edit (graph_of 1), TakeSnapshot] doc_world)) ''f''
       = [graph_of 2]"
  by code_simp

text \<open>
  Claim C3. Starting from an empty history of the document, after any sequence of
  \<open>takeSnapshot\<close> calls with arbitrary edits of the graph between them, the past stack of the
  document holds at most \<open>maxHistorySize\<close> (100) entries.
\<close>

theorem past_never_exceeds_maxHistorySize:
  assumes "stack (past w) (currentFlowId w) = []"
      and "\<forall>a\<in>set ops. a \<noteq> Undo \<and> a \<noteq> Redo"
  shows "int (length (stack (past (history_run stringify ops w)) (currentFlowId w)))
           \<le> maxHistorySize defaultOptions"
proof -
  from assms have "length (stack (past (history_run stringify ops w)) (currentFlowId w)) \<le> 50"
    by (intro snapshots_le_50) simp_all
  then show ?thesis by (simp add: defaultOptions_def)
qed

theorem past_never_exceeds_maxHistorySize_witness:
  "stack (past doc_world) (currentFlowId doc_world) = []
   \<and> list_all (\<lambda>a. a \<noteq> Undo \<and> a \<noteq> Redo) (snapshots 3)
   \<and> int (length (stack (past (history_run text_of_graph (snapshots 3) doc_world))
             (currentFlowId doc_world))) \<le> maxHistorySize defaultOptions"
proof -
  have a: "stack (past doc_world) (currentFlowId doc_world) = []" by code_simp
  have b: "list_all (\<lambda>a. a \<noteq> Undo \<and> a \<noteq> Redo) (snapshots 3)" by code_simp
  then have c: "\<forall>a\<in>set (snapshots 3). a \<noteq> Undo \<and> a \<noteq> Redo"
    by (simp add: list_all_iff)
  from a b past_never_exceeds_maxHistorySize [OF a c, of text_of_graph]
  show ?thesis by simp
qed

text \<open>
  Claim C4. When the entry on top of the past stack of the current document is structurally
  identical to the live graph, \<open>takeSnapshot\<close> changes nothing: no entry is pushed and both
  stacks stay as they are. In particular a second \<open>takeSnapshot\<close> right after a first one,
  with the graph unchanged, changes nothing.
\<close>

theorem takeSnapshot_dedup_noop:
  "(stack (past w) (currentFlowId w) \<noteq> [] \<and>
    last (stack (past w) (currentFlowId w))
      = \<lparr>nodes = nodes (flowStore w), edges = edges (flowStore w)\<rparr> \<longrightarrow>
      takeSnapshot stringify w = w)
   \<and> takeSnapshot stringify (takeSnapshot stringify w) = takeSnapshot stringify w"
proof (intro conjI impI)
  assume "stack (past w) (currentFlowId w) \<noteq> [] \<and>
    last (stack (past w) (currentFlowId w))
      = \<lparr>nodes = nodes (flowStore w), edges = edges (flowStore w)\<rparr>"
  then have "dedup stringify w"
    by (simp add: dedup_iff graph_eta)
  then show "takeSnapshot stringify w = w"
    by (rule takeSnapshot_noop)
next
  show "takeSnapshot stringify (takeSnapshot stringify w) = takeSnapshot stringify w"
  proof (cases "dedup stringify w")
    case True
    then show ?thesis by (simp add: takeSnapshot_noop)
  next
    case False
    have "dedup stringify (takeSnapshot stringify w)"
      by (simp add: dedup_iff) (simp add: takeSnapshot_new [OF False] stack_def Let_def)
    then show ?thesis by (rule takeSnapshot_noop)
  qed
qed

theorem takeSnapshot_dedup_noop_witness:
  "stack (past (history_run text_of_graph (snapshots 2) doc_world)) ''f'' = [graph_of 0, graph_of 1]
   \<and> flowStore (history_run text_of_graph (snapshots 2) doc_world) = graph_of 1
   \<and> takeSnapshot text_of_graph (history_run text_of_graph (snapshots 2) doc_world)
       = history_run text_of_graph (snapshots 2) doc_world"
proof -
  let ?v = "history_run text_of_graph (snapshots 2) doc_world"
  have a: "currentFlowId ?v = ''f''" by code_simp
  have b: "stack (past ?v) ''f'' = [graph_of 0, graph_of 1]" by code_simp
  have c: "flowStore ?v = graph_of 1" by code_simp
  have "stack (past ?v) (currentFlowId ?v) \<noteq> [] \<and>
        last (stack (past ?v) (currentFlowId ?v))
          = \<lparr>nodes = nodes (flowStore ?v), edges = edges (flowStore ?v)\<rparr>"
    unfolding a b c by (simp add: graph_eta)
  with takeSnapshot_dedup_noop [of ?v text_of_graph]
  have "takeSnapshot text_of_graph ?v = ?v" by blast
  with b c show ?thesis by blast
qed

text \<open>
  Claim C5. For any document and any live graph, \<open>takeSnapshot\<close>, then \<open>undo\<close>, then
  \<open>redo\<close>, with no edit in between, leave the live graph as it was at the snapshot, and the
  past and future stacks of every document as they were right before the \<open>undo\<close>.
\<close>

theorem snapshot_undo_redo:
  "flowStore (redo (undo (takeSnapshot stringify w))) = flowStore w
   \<and> (\<forall>k. stack (past (redo (undo (takeSnapshot stringify w)))) k
            = stack (past (takeSnapshot stringify w)) k)
   \<and> (\<forall>k. stack (future (redo (undo (takeSnapshot stringify w)))) k
            = stack (future (takeSnapshot stringify w)) k)"
proof -
  let ?t = "takeSnapshot stringify w"
  have ne: "stack (past ?t) (currentFlowId ?t) \<noteq> []"
    by (simp add: takeSnapshot_past_nonempty)
  show ?thesis
    by (simp add: undo_then_redo [OF ne]) (simp add: stack_def)
qed

text \<open>
  Claim C6. \<open>undo\<close> on a document whose past stack is empty or was never created changes
  nothing: the graph session is not written and no stack of any document changes; no error
  is raised. \<open>redo\<close> with an empty future stack likewise.
\<close>

theorem undo_redo_on_empty_stack:
  "(stack (past w) (currentFlowId w) = [] \<longrightarrow> undo w = w)
   \<and> (stack (future w) (currentFlowId w) = [] \<longrightarrow> redo w = w)"
  by (simp add: undo_empty redo_empty)

theorem undo_redo_on_empty_stack_witness:
  "past doc_world (currentFlowId doc_world) = None
   \<and> future doc_world (currentFlowId doc_world) = None
   \<and> undo doc_world = doc_world
   \<and> redo doc_world = doc_world"
proof -
  have a: "past doc_world (currentFlowId doc_world) = None"
    by (simp add: doc_world_def init_world_def)
  have b: "future doc_world (currentFlowId doc_world) = None"
    by (simp add: doc_world_def init_world_def)
  from a have a': "stack (past doc_world) (currentFlowId doc_world) = []"
    by (simp add: stack_def)
  from b have b': "stack (future doc_world) (currentFlowId doc_world) = []"
    by (simp add: stack_def)
  from undo_redo_on_empty_stack [of doc_world] a' b'
  have "undo doc_world = doc_world" and "redo doc_world = doc_world" by blast+
  with a b show ?thesis by blast
qed

text \<open>
  Claim C10. Starting from an empty history of the document, no sequence of \<open>takeSnapshot\<close>
  calls grows its past stack beyond 50 entries, half of \<open>maxHistorySize\<close>: the start index
  of the slice, \<open>pastLength - maxHistorySize + 1\<close>, is negative below 99 entries and counts
  from the end of the array (the slice drops \<open>2 * pastLength - 99\<close> entries from the
  front, none below 50), so that at 50 entries every push evicts the oldest entry.
\<close>

theorem past_capped_at_50:
  "(stack (past w) (currentFlowId w) = [] \<and> (\<forall>a\<in>set ops. a \<noteq> Undo \<and> a \<noteq> Redo) \<longrightarrow>
      length (stack (past (history_run stringify ops w)) (currentFlowId w)) \<le> 50)
   \<and> (length (stack (past v) (currentFlowId v)) = 50 \<and> \<not> dedup stringify v \<longrightarrow>
        stack (past (takeSnapshot stringify v)) (currentFlowId v) =
          tl (stack (past v) (currentFlowId v)) @ [flowStore v])
   \<and> (length xs < 99 \<longrightarrow>
        int (length xs) - maxHistorySize defaultOptions + 1 < 0 \<and>
        js_slice xs (int (length xs) - maxHistorySize defaultOptions + 1) (int (length xs))
          = drop (2 * length xs - 99) xs)"
proof (intro conjI impI)
  assume "stack (past w) (currentFlowId w) = [] \<and> (\<forall>a\<in>set ops. a \<noteq> Undo \<and> a \<noteq> Redo)"
  then show "length (stack (past (history_run stringify ops w)) (currentFlowId w)) \<le> 50"
    by (intro snapshots_le_50) simp_all
next
  assume "length (stack (past v) (currentFlowId v)) = 50 \<and> \<not> dedup stringify v"
  then show "stack (past (takeSnapshot stringify v)) (currentFlowId v) =
          tl (stack (past v) (currentFlowId v)) @ [flowStore v]"
    by (simp add: takeSnapshot_new stack_def Let_def drop_Suc)
next
  assume "length xs < 99"
  then show "int (length xs) - maxHistorySize defaultOptions + 1 < 0"
    by (simp add: defaultOptions_def)
next
  assume "length xs < 99"
  then show "js_slice xs (int (length xs) - maxHistorySize defaultOptions + 1)
      (int (length xs)) = drop (2 * length xs - 99) xs"
    by (simp add: slice_evict)
qed

theorem past_capped_at_50_witness:
  "stack (past doc_world) (currentFlowId doc_world) = []
   \<and> list_all (\<lambda>a. a \<noteq> Undo \<and> a \<noteq> Redo) (snapshots 60)
   \<and> length (stack (past (history_run text_of_graph (snapshots 60) doc_world)) ''f'') \<le> 50
   \<and> length (stack (past (history_run text_of_graph (snapshots 50 @ [Edit (graph_of 50)])
               doc_world)) ''f'') = 50
   \<and> \<not> dedup text_of_graph (history_run text_of_graph (snapshots 50 @ [Edit (graph_of 50)])
           doc_world)
   \<and> stack (past (takeSnapshot text_of_graph
        (history_run text_of_graph (snapshots 50 @ [Edit (graph_of 50)]) doc_world))) ''f''
       = tl (stack (past (history_run text_of_graph (snapshots 50 @ [Edit (graph_of 50)])
               doc_world)) ''f'') @ [graph_of 50]
   \<and> int (length (map graph_of [0..<50])) - maxHistorySize defaultOptions + 1 < 0
   \<and> js_slice (map graph_of [0..<50])
         (int (length (map graph_of [0..<50])) - maxHistorySize defaultOptions + 1)
         (int (length (map graph_of [0..<50])))
       = drop 1 (map graph_of [0..<50])"
proof -
  let ?u = "history_run text_of_graph (snapshots 50) doc_world"
  let ?v = "history_run text_of_graph (snapshots 50 @ [Edit (graph_of 50)]) doc_world"
  have v: "?v = setEdges (edges (graph_of 50)) (setNodes (nodes (graph_of 50)) ?u)"
    by (simp add: history_run_append)
  have cid0: "currentFlowId doc_world = ''f''" by (simp add: doc_world_def)
  have a: "stack (past doc_world) (currentFlowId doc_world) = []"
    by (simp add: doc_world_def init_world_def stack_def)
  have b: "list_all (\<lambda>a. a \<noteq> Undo \<and> a \<noteq> Redo) (snapshots 60)" by code_simp
  then have b': "\<forall>a\<in>set (snapshots 60). a \<noteq> Undo \<and> a \<noteq> Redo"
    by (simp add: list_all_iff)
  have cid: "currentFlowId ?v = ''f''"
    and ps: "stack (past ?v) ''f'' = map graph_of [0..<50]"
    unfolding v using run_snapshots [of 50] by simp_all
  have live: "flowStore ?v = graph_of 50"
    unfolding v by (simp add: setEdges_def setNodes_def graph_eta)
  have d: "length (stack (past ?v) (currentFlowId ?v)) = 50"
    unfolding cid ps by simp
  have "[0..<50] = [0..<49] @ [49]" by (simp add: upt_rec)
  with ps have "last (stack (past ?v) ''f'') = graph_of 49" by simp
  with ps cid live have e: "\<not> dedup text_of_graph ?v"
    by (simp add: dedup_iff text_of_graph_inj)
  note inst = past_capped_at_50 [of doc_world "snapshots 60" text_of_graph ?v
      "map graph_of [0..<50]"]
  from inst a b' have c1: "length (stack (past (history_run text_of_graph (snapshots 60) doc_world))
      (currentFlowId doc_world)) \<le> 50" by blast
  from inst d e have c2: "stack (past (takeSnapshot text_of_graph ?v)) (currentFlowId ?v) =
          tl (stack (past ?v) (currentFlowId ?v)) @ [flowStore ?v]" by blast
  have l: "length (map graph_of [0..<50]) < 99" by simp
  from inst l
  have c3: "int (length (map graph_of [0..<50])) - maxHistorySize defaultOptions + 1 < 0"
    and c4: "js_slice (map graph_of [0..<50])
         (int (length (map graph_of [0..<50])) - maxHistorySize defaultOptions + 1)
         (int (length (map graph_of [0..<50])))
       = drop (2 * length (map graph_of [0..<50]) - 99) (map graph_of [0..<50])"
    by blast+
  have "2 * length (map graph_of [0..<50]) - 99 = 1" by simp
  with c4 have c5: "js_slice (map graph_of [0..<50])
         (int (length (map graph_of [0..<50])) - maxHistorySize defaultOptions + 1)
         (int (length (map graph_of [0..<50])))
       = drop 1 (map graph_of [0..<50])" by simp
  from a b c1 d e c2 c3 c5 show ?thesis
    unfolding cid cid0 live by blast
qed

section \<open>Properties of the paste path\<close>

lemma untouched_refl: "untouched w w"
  by (simp add: untouched_def)

lemma untouched_trans: "untouched w v \<Longrightarrow> untouched v u \<Longrightarrow> untouched w u"
  by (simp add: untouched_def)

lemma untouched_paste: "untouched w (paste env g p w)"
  by (simp add: untouched_def paste_def)

text \<open>With \<open>newProject\<close> false, \<open>addFlow\<close> has settled when its first part ends.\<close>

lemma addFlow_start_False:
  "addFlow_start env False flow override position w =
     (case flow of
        None \<Rightarrow> (Settled (Rejected TypeError), w)
      | Some src \<Rightarrow>
          (case data src of
             None \<Rightarrow> (Settled (Rejected TypeError), w)
           | Some d \<Rightarrow>
               (Settled (Resolved None),
                paste env \<lparr>nodes = nodes d, edges = edges d\<rparr>
                  (case position of Some q \<Rightarrow> q | None \<Rightarrow> \<lparr>x = 10, y = 10\<rparr>) w)))"
  by (simp add: addFlow_start_def)

lemma addFlow_False:
  "addFlow env False flow override position w =
     (case flow of
        None \<Rightarrow> (Rejected TypeError, w)
      | Some src \<Rightarrow>
          (case data src of
             None \<Rightarrow> (Rejected TypeError, w)
           | Some d \<Rightarrow>
               (Resolved None,
                paste env \<lparr>nodes = nodes d, edges = edges d\<rparr>
                  (case position of Some q \<Rightarrow> q | None \<Rightarrow> \<lparr>x = 10, y = 10\<rparr>) w)))"
  by (simp add: addFlow_def addFlow_start_False addFlow_resume_def split: option.splits)

lemma addFlow_False_untouched:
  "untouched w (snd (addFlow env False flow override position w))"
  by (simp add: addFlow_False untouched_refl untouched_paste split: option.splits)

lemma addFlow_False_result:
  "fst (addFlow env False flow override position w) = Resolved None \<or>
   fst (addFlow env False flow override position w) = Rejected TypeError"
  by (simp add: addFlow_False split: option.splits)

text \<open>
  A bundle with \<open>newProject\<close> false: every call has settled when it returns, so the
  \<open>forEach\<close> is a sequence of complete \<open>addFlow\<close> calls.
\<close>

lemma bundle_False:
  "start_all env False p fls w = (ts, v) \<Longrightarrow>
   resume_all env ts v =
     fold (\<lambda>flow u. snd (addFlow env False (Some flow) None (Some p) u)) fls w"
proof (induction fls arbitrary: w ts v)
  case Nil
  then show ?case by simp
next
  case (Cons flow fls)
  obtain t w1 where s: "addFlow_start env False (Some flow) None (Some p) w = (t, w1)"
    by (cases "addFlow_start env False (Some flow) None (Some p) w")
  obtain ts' w2 where r: "start_all env False p fls w1 = (ts', w2)"
    by (cases "start_all env False p fls w1")
  from Cons.prems s r have ts: "ts = t # ts'" and v: "v = w2" by simp_all
  from s obtain q where t: "t = Settled q"
    by (auto simp add: addFlow_start_False split: option.splits)
  have "snd (addFlow env False (Some flow) None (Some p) w) = w1"
    by (simp add: addFlow_def s t addFlow_resume_def)
  moreover have "resume_all env ts v = resume_all env ts' w2"
    by (simp add: ts v t addFlow_resume_def)
  ultimately show ?case using Cons.IH [OF r] by simp
qed

lemma fold_addFlow_False_untouched:
  "untouched w (fold (\<lambda>flow u. snd (addFlow env False (Some flow) None (Some p) u)) fls w)"
proof (induction fls arbitrary: w)
  case Nil
  show ?case by (simp add: untouched_refl)
next
  case (Cons flow fls)
  from addFlow_False_untouched [of w env "Some flow" None "Some p"]
    Cons.IH [of "snd (addFlow env False (Some flow) None (Some p) w)"]
  show ?case by (auto intro: untouched_trans)
qed

text \<open>\<open>uploadFlow\<close> with a file and \<open>newProject\<close> false, once the text has parsed.\<close>

lemma uploadFlow_False:
  assumes "JSON_parse env (file_text f) = Some fdata"
  shows "uploadFlow env False (Some f) isComponent position picked w =
     (let p = (case position of Some q \<Rightarrow> q | None \<Rightarrow> \<lparr>x = 10, y = 10\<rparr>)
      in case file_flows fdata of
           Some fls \<Rightarrow>
             (Resolved (Some ''''),
              fold (\<lambda>flow u. snd (addFlow env False (Some flow) None (Some p) u)) fls w)
         | None \<Rightarrow>
             (if data fdata = None then Pending else Resolved None,
              snd (addFlow env False (Some (FlowType.truncate fdata)) None (Some p) w)))"
proof (cases "file_flows fdata")
  case None
  with assms show ?thesis
    by (simp add: uploadFlow_def Let_def addFlow_False FlowType.truncate_def
        split: option.splits)
next
  case (Some fls)
  let ?p = "case position of Some q \<Rightarrow> q | None \<Rightarrow> \<lparr>x = 10, y = 10\<rparr>"
  obtain ts v where s: "start_all env False ?p fls w = (ts, v)"
    by (cases "start_all env False ?p fls w")
  from bundle_False [OF s] s Some assms show ?thesis
    by (simp add: uploadFlow_def Let_def)
qed

lemma uploadFlow_False_untouched:
  assumes "JSON_parse env (file_text f) = Some fdata"
  shows "untouched w (snd (uploadFlow env False (Some f) isComponent position picked w))"
  by (simp add: uploadFlow_False [OF assms] Let_def fold_addFlow_False_untouched
      addFlow_False_untouched split: option.splits)

section \<open>Claims about the registry and the importer\<close>

text \<open>
  Claim C7, as amended. A call \<open>addFlow(false, source, _, position)\<close> makes no call to the
  persistence gateway and leaves the collection, the current identifier and the current
  document of the registry unchanged, whatever the source is. When the source document has
  a graph, the paste of the graph session is called exactly once, with the nodes and edges
  of the source at the given position, or at (10, 10) when no position is given, and the
  call returns nothing. When the source is missing or has no graph (\<open>data\<close> is null), the
  call throws, the paste is not called and nothing changes.
\<close>

theorem addFlow_paste:
  "let r = addFlow env False flow override position w;
       p = (case position of Some q \<Rightarrow> q | None \<Rightarrow> \<lparr>x = 10, y = 10\<rparr>)
   in filter gateway_call (calls (snd r)) = filter gateway_call (calls w)
      \<and> flows (snd r) = flows w
      \<and> currentFlowId (snd r) = currentFlowId w
      \<and> currentFlow (snd r) = currentFlow w
      \<and> (\<forall>src d. flow = Some src \<and> data src = Some d \<longrightarrow>
            fst r = Resolved None
            \<and> calls (snd r) = calls w @ [Paste \<lparr>nodes = nodes d, edges = edges d\<rparr> p]
            \<and> snd r = w\<lparr>flowStore :=
                           paste_graph env \<lparr>nodes = nodes d, edges = edges d\<rparr> p
                             (flowStore w),
                         calls := calls w @ [Paste \<lparr>nodes = nodes d, edges = edges d\<rparr> p]\<rparr>)
      \<and> (flow = None \<or> (\<exists>src. flow = Some src \<and> data src = None) \<longrightarrow>
            r = (Rejected TypeError, w))"
proof -
  have "untouched w (snd (addFlow env False flow override position w))"
    by (rule addFlow_False_untouched)
  then show ?thesis
    by (auto simp add: Let_def untouched_def addFlow_False paste_def)
qed

theorem addFlow_paste_witness:
  "data (FlowType.truncate component_doc)
     = Some \<lparr>nodes = ''n'', edges = ''e'', viewport = \<lparr>x = 0, y = 0, zoom = 1\<rparr>\<rparr>
   \<and> fst (addFlow demo_env False (Some (FlowType.truncate component_doc)) None
            (Some \<lparr>x = 5, y = 5\<rparr>) open_world) = Resolved None
   \<and> calls (snd (addFlow demo_env False (Some (FlowType.truncate component_doc)) None
            (Some \<lparr>x = 5, y = 5\<rparr>) open_world))
       = [Paste \<lparr>nodes = ''n'', edges = ''e''\<rparr> \<lparr>x = 5, y = 5\<rparr>]
   \<and> flows (snd (addFlow demo_env False (Some (FlowType.truncate component_doc)) None
            (Some \<lparr>x = 5, y = 5\<rparr>) open_world)) = flows open_world
   \<and> data (FlowType.truncate nodata_doc) = None
   \<and> addFlow demo_env False (Some (FlowType.truncate nodata_doc)) None None open_world
       = (Rejected TypeError, open_world)"
proof -
  let ?d = "\<lparr>nodes = ''n'', edges = ''e'', viewport = \<lparr>x = 0, y = 0, zoom = 1\<rparr>\<rparr>"
  let ?r = "addFlow demo_env False (Some (FlowType.truncate component_doc)) None
            (Some \<lparr>x = 5, y = 5\<rparr>) open_world"
  have a: "data (FlowType.truncate component_doc) = Some ?d"
    by (simp add: component_doc_def FlowType.truncate_def)
  have b: "calls open_world = []"
    by (simp add: open_world_def setCurrentFlowId_def setFlows_def init_world_def)
  have c: "data (FlowType.truncate nodata_doc) = None"
    by (simp add: nodata_doc_def component_doc_def FlowType.truncate_def)
  from addFlow_paste [of demo_env "Some (FlowType.truncate component_doc)" None
      "Some \<lparr>x = 5, y = 5\<rparr>" open_world] a
  have "fst ?r = Resolved None"
    and "calls (snd ?r) = [Paste \<lparr>nodes = ''n'', edges = ''e''\<rparr> \<lparr>x = 5, y = 5\<rparr>]"
    and "flows (snd ?r) = flows open_world"
    by (simp_all add: Let_def b)
  moreover
  from addFlow_paste [of demo_env "Some (FlowType.truncate nodata_doc)" None None open_world] c
  have "addFlow demo_env False (Some (FlowType.truncate nodata_doc)) None None open_world
       = (Rejected TypeError, open_world)"
    by (simp add: Let_def)
  ultimately show ?thesis using a c by blast
qed

text \<open>
  Claim C7, as stated: every call \<open>addFlow(false, source, _, position)\<close> calls the paste
  exactly once with the nodes and edges of the source and returns nothing. It fails for a
  source document without a graph: \<open>flow!.data!.nodes\<close> throws, the promise of the call is
  rejected and the paste is never called.
\<close>

theorem addFlow_paste_counterexample:
  "data (FlowType.truncate nodata_doc) = None
   \<and> fst (addFlow demo_env False (Some (FlowType.truncate nodata_doc)) None
            (Some \<lparr>x = 5, y = 5\<rparr>) open_world) = Rejected TypeError
   \<and> calls (snd (addFlow demo_env False (Some (FlowType.truncate nodata_doc)) None
            (Some \<lparr>x = 5, y = 5\<rparr>) open_world)) = []"
  by (simp add: addFlow_def addFlow_start_def addFlow_resume_def nodata_doc_def
      component_doc_def FlowType.truncate_def open_world_def setCurrentFlowId_def
      setFlows_def init_world_def)

text \<open>
  Claim C9, as amended. Take a call of \<open>uploadFlow\<close> with a file whose parsed payload has
  a defined \<open>is_component\<close> different from the requested \<open>isComponent\<close> (false when not
  given). It makes no call to the gateway and leaves the collection, the current identifier
  and the current document of the registry unchanged. For a new document (\<open>newProject\<close>
  true) it is rejected with the message
  \<open>You cannot upload a component as a flow or vice versa\<close> and changes nothing at all:
  \<open>addFlow\<close> is not called. With \<open>newProject\<close> false the check is not made and the call
  is never rejected: a single document is handed to \<open>addFlow\<close>, which pastes it at the
  position when it has a graph, and the promise resolves with nothing; when it has no
  graph nothing is pasted and the promise stays pending; the documents of a bundle are
  handed to \<open>addFlow\<close> one after the other and the promise resolves with the empty string.
\<close>

theorem uploadFlow_conflict:
  assumes "JSON_parse env (file_text f) = Some fdata"
      and "is_component fdata \<noteq> Undefined"
      and "is_component fdata \<noteq> Boolean (case isComponent of Some c \<Rightarrow> c | None \<Rightarrow> False)"
  shows "let r = uploadFlow env newProject (Some f) isComponent position picked w;
             p = (case position of Some q \<Rightarrow> q | None \<Rightarrow> \<lparr>x = 10, y = 10\<rparr>)
         in filter gateway_call (calls (snd r)) = filter gateway_call (calls w)
            \<and> flows (snd r) = flows w
            \<and> currentFlowId (snd r) = currentFlowId w
            \<and> currentFlow (snd r) = currentFlow w
            \<and> (newProject \<longrightarrow>
                  r = (Rejected (Message
                         ''You cannot upload a component as a flow or vice versa''), w))
            \<and> (\<not> newProject \<longrightarrow>
                  (\<forall>m. fst r \<noteq> Rejected m)
                  \<and> (\<forall>d. file_flows fdata = None \<and> data fdata = Some d \<longrightarrow>
                        r = (Resolved None, paste env \<lparr>nodes = nodes d, edges = edges d\<rparr> p w))
                  \<and> (file_flows fdata = None \<and> data fdata = None \<longrightarrow> r = (Pending, w))
                  \<and> (\<forall>fls. file_flows fdata = Some fls \<longrightarrow>
                        r = (Resolved (Some ''''),
                             fold (\<lambda>flow u. snd (addFlow env False (Some flow) None (Some p) u))
                               fls w)))"
proof (cases newProject)
  case True
  with assms
  have "uploadFlow env newProject (Some f) isComponent position picked w =
          (Rejected (Message ''You cannot upload a component as a flow or vice versa''), w)"
    by (simp add: uploadFlow_def Let_def)
  with True show ?thesis by (simp add: Let_def)
next
  case False
  let ?r = "uploadFlow env False (Some f) isComponent position picked w"
  let ?p = "case position of Some q \<Rightarrow> q | None \<Rightarrow> \<lparr>x = 10, y = 10\<rparr>"
  note e = uploadFlow_False [OF assms(1), of isComponent position picked w]
  have "untouched w (snd ?r)"
    by (rule uploadFlow_False_untouched [OF assms(1)])
  then have frame: "filter gateway_call (calls (snd ?r)) = filter gateway_call (calls w)"
    "flows (snd ?r) = flows w" "currentFlowId (snd ?r) = currentFlowId w"
    "currentFlow (snd ?r) = currentFlow w"
    by (simp_all add: untouched_def)
  have nr: "\<forall>m. fst ?r \<noteq> Rejected m"
    by (simp add: e Let_def split: option.splits)
  have single: "\<forall>d. file_flows fdata = None \<and> data fdata = Some d \<longrightarrow>
      ?r = (Resolved None, paste env \<lparr>nodes = nodes d, edges = edges d\<rparr> ?p w)"
    by (simp add: e Let_def addFlow_False FlowType.truncate_def)
  have nodata: "file_flows fdata = None \<and> data fdata = None \<longrightarrow> ?r = (Pending, w)"
    by (simp add: e Let_def addFlow_False FlowType.truncate_def)
  have many: "\<forall>fls. file_flows fdata = Some fls \<longrightarrow>
      ?r = (Resolved (Some ''''),
            fold (\<lambda>flow u. snd (addFlow env False (Some flow) None (Some ?p) u)) fls w)"
    by (simp add: e Let_def)
  from False frame nr single nodata many show ?thesis
    unfolding Let_def by simp
qed

theorem uploadFlow_conflict_witness:
  "JSON_parse demo_env (file_text component_file) = Some component_doc
   \<and> is_component component_doc = Boolean True
   \<and> uploadFlow demo_env True (Some component_file) (Some False) None None open_world =
       (Rejected (Message ''You cannot upload a component as a flow or vice versa''),
        open_world)
   \<and> uploadFlow demo_env False (Some component_file) (Some False) (Some \<lparr>x = 5, y = 5\<rparr>)
        None open_world =
       (Resolved None, paste demo_env \<lparr>nodes = ''n'', edges = ''e''\<rparr> \<lparr>x = 5, y = 5\<rparr> open_world)
   \<and> JSON_parse demo_env (file_text nodata_file) = Some nodata_doc
   \<and> uploadFlow demo_env False (Some nodata_file) (Some False) None None open_world =
       (Pending, open_world)
   \<and> JSON_parse demo_env (file_text bundle_file) = Some bundle_doc
   \<and> fst (uploadFlow demo_env False (Some bundle_file) (Some False) None None open_world)
       = Resolved (Some '''')
   \<and> flows (snd (uploadFlow demo_env False (Some bundle_file) (Some False) None None
        open_world)) = flows open_world"
proof -
  have a: "JSON_parse demo_env (file_text component_file) = Some component_doc"
    by (simp add: demo_env_def component_file_def)
  have a': "JSON_parse demo_env (file_text nodata_file) = Some nodata_doc"
    by (simp add: demo_env_def nodata_file_def)
  have a'': "JSON_parse demo_env (file_text bundle_file) = Some bundle_doc"
    by (simp add: demo_env_def bundle_file_def)
  have b: "is_component component_doc = Boolean True"
    "is_component nodata_doc = Boolean True" "is_component bundle_doc = Boolean True"
    by (simp_all add: component_doc_def nodata_doc_def bundle_doc_def)
  have c: "Boolean True \<noteq> Undefined"
    "Boolean True \<noteq> Boolean (case Some False of Some c \<Rightarrow> c | None \<Rightarrow> False)"
    by simp_all
  have d: "file_flows component_doc = None"
    "data component_doc
       = Some \<lparr>nodes = ''n'', edges = ''e'', viewport = \<lparr>x = 0, y = 0, zoom = 1\<rparr>\<rparr>"
    "file_flows nodata_doc = None" "data nodata_doc = None"
    "file_flows bundle_doc
       = Some [FlowType.truncate component_doc, FlowType.truncate nodata_doc]"
    by (simp_all add: component_doc_def nodata_doc_def bundle_doc_def)
  from uploadFlow_conflict [OF a, of "Some False" True None None open_world] b c
  have 1: "uploadFlow demo_env True (Some component_file) (Some False) None None open_world =
       (Rejected (Message ''You cannot upload a component as a flow or vice versa''),
        open_world)"
    by (simp add: Let_def)
  from uploadFlow_conflict [OF a, of "Some False" False "Some \<lparr>x = 5, y = 5\<rparr>" None
      open_world] b c d
  have 2: "uploadFlow demo_env False (Some component_file) (Some False)
        (Some \<lparr>x = 5, y = 5\<rparr>) None open_world =
       (Resolved None, paste demo_env \<lparr>nodes = ''n'', edges = ''e''\<rparr> \<lparr>x = 5, y = 5\<rparr> open_world)"
    by (simp add: Let_def)
  from uploadFlow_conflict [OF a', of "Some False" False None None open_world] b c d
  have 3: "uploadFlow demo_env False (Some nodata_file) (Some False) None None open_world =
       (Pending, open_world)"
    by (simp add: Let_def)
  have h: "is_component bundle_doc \<noteq> Undefined"
    "is_component bundle_doc \<noteq> Boolean (case Some False of Some c \<Rightarrow> c | None \<Rightarrow> False)"
    by (simp_all add: b)
  note inst = uploadFlow_conflict [OF a'' h, of False None None open_world,
      unfolded Let_def]
  from inst have 5: "flows (snd (uploadFlow demo_env False (Some bundle_file) (Some False)
        None None open_world)) = flows open_world"
    by blast
  from inst d(5) have "\<exists>v. uploadFlow demo_env False (Some bundle_file) (Some False)
        None None open_world = (Resolved (Some ''''), v)"
    by blast
  then have 4: "fst (uploadFlow demo_env False (Some bundle_file) (Some False) None None
        open_world) = Resolved (Some '''')"
    by auto
  from a a' a'' b(1) 1 2 3 4 5 show ?thesis by blast
qed

text \<open>
  Claim C9, as stated: every \<open>uploadFlow\<close> call with a file whose \<open>is_component\<close>
  conflicts with the requested \<open>isComponent\<close> fails and calls neither \<open>addFlow\<close> nor the
  gateway. It fails when \<open>newProject\<close> is false: the check is skipped, the component
  document is handed to \<open>addFlow\<close>, which pastes it, and the promise resolves.
\<close>

theorem uploadFlow_conflict_counterexample:
  "is_component component_doc = Boolean True
   \<and> fst (uploadFlow demo_env False (Some component_file) (Some False)
            (Some \<lparr>x = 5, y = 5\<rparr>) None open_world) = Resolved None
   \<and> calls (snd (uploadFlow demo_env False (Some component_file) (Some False)
            (Some \<lparr>x = 5, y = 5\<rparr>) None open_world))
       = [Paste \<lparr>nodes = ''n'', edges = ''e''\<rparr> \<lparr>x = 5, y = 5\<rparr>]"
  by (simp add: uploadFlow_def addFlow_def addFlow_start_def addFlow_resume_def paste_def
      demo_env_def component_file_def component_doc_def FlowType.truncate_def
      open_world_def setCurrentFlowId_def setFlows_def init_world_def)

section \<open>Claims about the autosave\<close>

text \<open>
  Claim C8. \<open>autoSaveCurrentFlow\<close> is a trailing-edge debounce with one timer for the whole
  process. Each call cancels the autosave scheduled before, if it has not fired, and
  schedules a new one 300 ms after the call; so at most one timer is pending at any time.
  Three calls less than 300 ms apart, followed by 300 ms without a call, make exactly one
  save, of the current document with the nodes, edges and viewport of the third call. A
  timer that fires when there is no current document saves nothing.
\<close>

theorem autosave_debounce:
  "timers (autoSaveCurrentFlow ns es vp u) =
     filter (\<lambda>t. Some (timer_id t) \<noteq> saveTimeoutId u) (timers u) @
     [\<lparr>timer_id = nextTimerId u, due = now u + 300, timer_callback = AutoSave ns es vp\<rparr>]
   \<and> saveTimeoutId (autoSaveCurrentFlow ns es vp u) = Some (nextTimerId u)
   \<and> (timers w = [] \<longrightarrow> length (timers (autosave_run env evs w)) \<le> 1)
   \<and> (timers w = [] \<and> currentFlow w = Some cf \<and> d1 < 300 \<and> d2 < 300 \<and> 300 \<le> d3 \<longrightarrow>
        saved_flows (calls (autosave_run env
           [AutoSaveCall n1 e1 v1, Elapse d1, AutoSaveCall n2 e2 v2, Elapse d2,
            AutoSaveCall n3 e3 v3, Elapse d3] w))
         = saved_flows (calls w) @
             [cf\<lparr>data := Some \<lparr>nodes = n3, edges = e3, viewport = v3\<rparr>\<rparr>])
   \<and> (currentFlow v = None \<longrightarrow> run_callback env (AutoSave ns es vp) v = v)"
proof (intro conjI impI)
  show "timers (autoSaveCurrentFlow ns es vp u) =
     filter (\<lambda>t. Some (timer_id t) \<noteq> saveTimeoutId u) (timers u) @
     [\<lparr>timer_id = nextTimerId u, due = now u + 300, timer_callback = AutoSave ns es vp\<rparr>]"
    by (rule autoSave_timers)
next
  show "saveTimeoutId (autoSaveCurrentFlow ns es vp u) = Some (nextTimerId u)"
    by (rule autoSave_saveTimeoutId)
next
  assume "timers w = []"
  then have "timers (autosave_run env evs w) = [] \<or>
    (\<exists>t. timers (autosave_run env evs w) = [t] \<and> saveTimeoutId (autosave_run env evs w) = Some (timer_id t))"
    by (intro autosave_run_one_pending) simp
  then show "length (timers (autosave_run env evs w)) \<le> 1" by auto
next
  assume "timers w = [] \<and> currentFlow w = Some cf \<and> d1 < 300 \<and> d2 < 300 \<and> 300 \<le> d3"
  then show "saved_flows (calls (autosave_run env
           [AutoSaveCall n1 e1 v1, Elapse d1, AutoSaveCall n2 e2 v2, Elapse d2,
            AutoSaveCall n3 e3 v3, Elapse d3] w))
         = saved_flows (calls w) @
             [cf\<lparr>data := Some \<lparr>nodes = n3, edges = e3, viewport = v3\<rparr>\<rparr>]"
    by (intro three_calls) simp_all
next
  assume "currentFlow v = None"
  then show "run_callback env (AutoSave ns es vp) v = v"
    by (simp add: run_callback_def)
qed

theorem autosave_debounce_witness:
  "timers open_world = []
   \<and> currentFlow open_world = Some (FlowType.truncate component_doc)
   \<and> length (timers (autosave_run demo_env
        [AutoSaveCall ''a'' ''b'' \<lparr>x = 0, y = 0, zoom = 1\<rparr>, Elapse 400,
         AutoSaveCall ''c'' ''d'' \<lparr>x = 0, y = 0, zoom = 1\<rparr>] open_world)) \<le> 1
   \<and> saved_flows (calls (autosave_run demo_env
        [AutoSaveCall ''a'' ''b'' \<lparr>x = 0, y = 0, zoom = 1\<rparr>, Elapse 100,
         AutoSaveCall ''c'' ''d'' \<lparr>x = 1, y = 1, zoom = 1\<rparr>, Elapse 299,
         AutoSaveCall ''e'' ''f'' \<lparr>x = 2, y = 2, zoom = 2\<rparr>, Elapse 300] open_world))
       = [(FlowType.truncate component_doc)
            \<lparr>data := Some \<lparr>nodes = ''e'', edges = ''f'',
                            viewport = \<lparr>x = 2, y = 2, zoom = 2\<rparr>\<rparr>\<rparr>]
   \<and> currentFlow (init_world :: (char, char, unit) world) = None
   \<and> run_callback demo_env (AutoSave ''a'' ''b'' \<lparr>x = 0, y = 0, zoom = 1\<rparr>) init_world
       = init_world"
proof -
  have a: "timers open_world = []"
    by (simp add: open_world_def setCurrentFlowId_def setFlows_def init_world_def)
  have b: "currentFlow open_world = Some (FlowType.truncate component_doc)"
    by (simp add: open_world_def setCurrentFlowId_def setFlows_def init_world_def
        component_doc_def FlowType.truncate_def)
  have c: "calls open_world = []"
    by (simp add: open_world_def setCurrentFlowId_def setFlows_def init_world_def)
  have d: "currentFlow (init_world :: (char, char, unit) world) = None"
    by (simp add: init_world_def)
  have e: "(100::nat) < 300 \<and> (299::nat) < 300 \<and> (300::nat) \<le> 300" by simp
  note inst = autosave_debounce [of "''a''" "''b''" "\<lparr>x = 0, y = 0, zoom = 1\<rparr>" open_world
      open_world demo_env _ "FlowType.truncate component_doc" 100 299 300
      "''a''" "''b''" "\<lparr>x = 0, y = 0, zoom = 1\<rparr>" "''c''" "''d''" "\<lparr>x = 1, y = 1, zoom = 1\<rparr>"
      "''e''" "''f''" "\<lparr>x = 2, y = 2, zoom = 2\<rparr>" init_world]
  from inst a have c1: "length (timers (autosave_run demo_env
        [AutoSaveCall ''a'' ''b'' \<lparr>x = 0, y = 0, zoom = 1\<rparr>, Elapse 400,
         AutoSaveCall ''c'' ''d'' \<lparr>x = 0, y = 0, zoom = 1\<rparr>] open_world)) \<le> 1"
    by blast
  from inst a b e have "saved_flows (calls (autosave_run demo_env
        [AutoSaveCall ''a'' ''b'' \<lparr>x = 0, y = 0, zoom = 1\<rparr>, Elapse 100,
         AutoSaveCall ''c'' ''d'' \<lparr>x = 1, y = 1, zoom = 1\<rparr>, Elapse 299,
         AutoSaveCall ''e'' ''f'' \<lparr>x = 2, y = 2, zoom = 2\<rparr>, Elapse 300] open_world))
       = saved_flows (calls open_world) @ [(FlowType.truncate component_doc)
            \<lparr>data := Some \<lparr>nodes = ''e'', edges = ''f'',
                            viewport = \<lparr>x = 2, y = 2, zoom = 2\<rparr>\<rparr>\<rparr>]"
    by blast
  then have c2: "saved_flows (calls (autosave_run demo_env
        [AutoSaveCall ''a'' ''b'' \<lparr>x = 0, y = 0, zoom = 1\<rparr>, Elapse 100,
         AutoSaveCall ''c'' ''d'' \<lparr>x = 1, y = 1, zoom = 1\<rparr>, Elapse 299,
         AutoSaveCall ''e'' ''f'' \<lparr>x = 2, y = 2, zoom = 2\<rparr>, Elapse 300] open_world))
       = [(FlowType.truncate component_doc)
            \<lparr>data := Some \<lparr>nodes = ''e'', edges = ''f'',
                            viewport = \<lparr>x = 2, y = 2, zoom = 2\<rparr>\<rparr>\<rparr>]"
    by (simp add: c)
  from inst d have c3:
    "run_callback demo_env (AutoSave ''a'' ''b'' \<lparr>x = 0, y = 0, zoom = 1\<rparr>) init_world
       = init_world" by blast
  from a b c1 c2 d c3 show ?thesis by blast
qed

end
